theory Spec2Isabelle
  imports Main
begin

section \<open>Python values, objects and the store\<close>

text \<open>
  The module \<^verbatim>\<open>py/vtdb/update_stream_service.py\<close> works on Python objects: the reply of the
  transport is a dictionary whose entries may be lists of lists, the event object is built
  by writing into its \<^verbatim>\<open>__dict__\<close>, and \<^verbatim>\<open>PkRows\<close> is a list that grows by \<^verbatim>\<open>append\<close>.
  Mutable objects therefore live in a store and are referred to by address; immutable
  values (\<^verbatim>\<open>None\<close>, booleans, integers, strings, tuples) are values of their own.
  Floating-point numbers are left out; the module does no arithmetic.
\<close>

type_synonym addr = nat

datatype val =
    VNone
  | VBool bool
  | VInt int
  | VStr string
  | VTuple "val list"
  | VRef addr

text \<open>
  A dictionary is an association list with one entry per key, in the iteration order of
  the dictionary. \<open>OInst\<close> is an instance of a plain class (such as \<^verbatim>\<open>Coord\<close>), given by
  the name of its class and its attribute dictionary.
\<close>

datatype obj =
    OList "val list"
  | ODict "(string \<times> val) list"
  | OInst string "(string \<times> val) list"

text \<open>
  The store is the list of all objects allocated so far; the address of an object is its
  index, and allocation appends. An address beyond the end of the store refers to nothing.
\<close>

type_synonym heap = "obj list"

definition obj_at :: "heap \<Rightarrow> addr \<Rightarrow> obj option" where
  "obj_at h a = (if a < length h then Some (h ! a) else None)"

definition alloc :: "heap \<Rightarrow> obj \<Rightarrow> addr \<times> heap" where
  "alloc h ob = (length h, h @ [ob])"

datatype excls =
    GoRpcError
  | AppError
  | OperationalError
  | DatabaseError
  | KeyError
  | TypeError
  | AttributeError
  | OtherClass string

text \<open>An exception is an instance of a class, carrying its \<^verbatim>\<open>args\<close>.\<close>

datatype exn = PyExn (cls: excls) (args: "val list")

subsection \<open>Dictionaries\<close>

primrec dict_get :: "(string \<times> val) list \<Rightarrow> string \<Rightarrow> val option" where
  "dict_get [] k = None"
| "dict_get (kv # kvs) k = (if fst kv = k then Some (snd kv) else dict_get kvs k)"

text \<open>\<^verbatim>\<open>d[k] = v\<close>: an existing key keeps its place, a new key goes to the end.\<close>

primrec dict_set :: "string \<Rightarrow> val \<Rightarrow> (string \<times> val) list \<Rightarrow> (string \<times> val) list" where
  "dict_set k v [] = [(k, v)]"
| "dict_set k v (kv # kvs) = (if fst kv = k then (k, v) # kvs else kv # dict_set k v kvs)"

primrec dict_del :: "string \<Rightarrow> (string \<times> val) list \<Rightarrow> (string \<times> val) list" where
  "dict_del k [] = []"
| "dict_del k (kv # kvs) = (if fst kv = k then dict_del k kvs else kv # dict_del k kvs)"

definition dict_keys :: "(string \<times> val) list \<Rightarrow> string set" where
  "dict_keys kvs = fst ` set kvs"

subsection \<open>Truth value and iteration\<close>

text \<open>
  \<^verbatim>\<open>not x\<close> is true for \<^verbatim>\<open>None\<close>, \<^verbatim>\<open>False\<close>, zero and every empty string, tuple, list and
  dictionary; an instance of a plain class is true.
\<close>

definition truthy :: "heap \<Rightarrow> val \<Rightarrow> bool" where
  "truthy h v =
    (case v of
       VNone \<Rightarrow> False
     | VBool b \<Rightarrow> b
     | VInt i \<Rightarrow> i \<noteq> 0
     | VStr s \<Rightarrow> s \<noteq> []
     | VTuple xs \<Rightarrow> xs \<noteq> []
     | VRef a \<Rightarrow>
         (case obj_at h a of
            Some (OList xs) \<Rightarrow> xs \<noteq> []
          | Some (ODict kvs) \<Rightarrow> kvs \<noteq> []
          | Some (OInst c kvs) \<Rightarrow> True
          | None \<Rightarrow> True))"

text \<open>
  The name of the type of a value, as the interpreter prints it in its messages. Integers
  are taken to be \<^verbatim>\<open>int\<close> and strings \<^verbatim>\<open>str\<close>.
\<close>

definition type_name :: "heap \<Rightarrow> val \<Rightarrow> string" where
  "type_name h v =
    (case v of
       VNone \<Rightarrow> ''NoneType''
     | VBool b \<Rightarrow> ''bool''
     | VInt i \<Rightarrow> ''int''
     | VStr s \<Rightarrow> ''str''
     | VTuple xs \<Rightarrow> ''tuple''
     | VRef a \<Rightarrow>
         (case obj_at h a of
            Some (OList xs) \<Rightarrow> ''list''
          | Some (ODict kvs) \<Rightarrow> ''dict''
          | Some (OInst c kvs) \<Rightarrow> c
          | None \<Rightarrow> ''object''))"

definition quoted :: "string \<Rightarrow> string" where
  "quoted s = CHR 0x27 # s @ [CHR 0x27]"

text \<open>
  The items a \<^verbatim>\<open>for\<close> loop draws from a value: the characters of a string, the components
  of a tuple, the elements of a list, the keys of a dictionary. Anything else is not
  iterable and raises \<^verbatim>\<open>TypeError\<close> with a message that names the type, such as
  \<^verbatim>\<open>'NoneType' object is not iterable\<close>.
\<close>

definition not_iterable :: "heap \<Rightarrow> val \<Rightarrow> exn" where
  "not_iterable h v = PyExn TypeError [VStr (quoted (type_name h v) @ '' object is not iterable'')]"

definition iter :: "heap \<Rightarrow> val \<Rightarrow> exn + val list" where
  "iter h v =
    (case v of
       VStr s \<Rightarrow> Inr (map (\<lambda>c. VStr [c]) s)
     | VTuple xs \<Rightarrow> Inr xs
     | VRef a \<Rightarrow>
         (case obj_at h a of
            Some (OList xs) \<Rightarrow> Inr xs
          | Some (ODict kvs) \<Rightarrow> Inr (map (\<lambda>kv. VStr (fst kv)) kvs)
          | _ \<Rightarrow> Inl (not_iterable h v))
     | _ \<Rightarrow> Inl (not_iterable h v))"

text \<open>
  \<^verbatim>\<open>izip\<close> draws the items of its arguments in the same way, and raises \<^verbatim>\<open>TypeError\<close> with
  its own message, which numbers the argument that is not iterable.
\<close>

definition izip_error :: "nat \<Rightarrow> exn" where
  "izip_error i =
     PyExn TypeError
       [VStr (''izip argument #'' @ (if i = 1 then ''1'' else ''2'') @ '' must support iteration'')]"

text \<open>\<^verbatim>\<open>izip(xs, ys)\<close> yields pairs until either argument runs out.\<close>

fun izip :: "val list \<Rightarrow> val list \<Rightarrow> val list" where
  "izip (x # xs) (y # ys) = VTuple [x, y] # izip xs ys"
| "izip _ _ = []"

text \<open>
  \<^verbatim>\<open>d[k]\<close> on the value \<open>d\<close>: \<^verbatim>\<open>KeyError\<close> when the dictionary has no such key. The
  constructor subscripts \<^verbatim>\<open>raw_response\<close> only after \<^verbatim>\<open>iteritems\<close> has succeeded on it, so
  the branches for a value that is not a dictionary are never taken there.
\<close>

definition getitem :: "heap \<Rightarrow> val \<Rightarrow> string \<Rightarrow> exn + val" where
  "getitem h d k =
    (case d of
       VRef a \<Rightarrow>
         (case obj_at h a of
            Some (ODict kvs) \<Rightarrow>
              (case dict_get kvs k of
                 Some v \<Rightarrow> Inr v
               | None \<Rightarrow> Inl (PyExn KeyError [VStr k]))
          | _ \<Rightarrow> Inl (PyExn TypeError [VStr ''object is not subscriptable'']))
     | _ \<Rightarrow> Inl (PyExn TypeError [VStr ''object is not subscriptable'']))"

text \<open>
  \<^verbatim>\<open>raw_response.iteritems()\<close>: only a dictionary has the method; on anything else the
  attribute lookup raises \<^verbatim>\<open>AttributeError\<close>, as in
  \<^verbatim>\<open>'list' object has no attribute 'iteritems'\<close>.
\<close>

definition no_iteritems :: "heap \<Rightarrow> val \<Rightarrow> exn" where
  "no_iteritems h v =
     PyExn AttributeError
       [VStr (quoted (type_name h v) @ '' object has no attribute '' @ quoted ''iteritems'')]"

definition iteritems :: "heap \<Rightarrow> val \<Rightarrow> exn + (string \<times> val) list" where
  "iteritems h d =
    (case d of
       VRef a \<Rightarrow>
         (case obj_at h a of
            Some (ODict kvs) \<Rightarrow> Inr kvs
          | _ \<Rightarrow> Inl (no_iteritems h d))
     | _ \<Rightarrow> Inl (no_iteritems h d))"

section \<open>The event decoder: \<^verbatim>\<open>EventData.__init__\<close>\<close>

text \<open>
  The instance is represented by its \<^verbatim>\<open>__dict__\<close>, the object at address \<open>self\<close>; the
  class attributes (all \<^verbatim>\<open>None\<close>) are not part of it.
\<close>

definition self_dict :: "heap \<Rightarrow> addr \<Rightarrow> (string \<times> val) list" where
  "self_dict h self = (case obj_at h self of Some (ODict kvs) \<Rightarrow> kvs | _ \<Rightarrow> [])"

text \<open>\<^verbatim>\<open>self.__dict__[key] = val\<close>\<close>

definition setattr :: "heap \<Rightarrow> addr \<Rightarrow> string \<Rightarrow> val \<Rightarrow> heap" where
  "setattr h self k v = h[self := ODict (dict_set k v (self_dict h self))]"

text \<open>
  A statement that may raise is a function from the store to the exception raised, if
  any, and the store at that point: objects written before an exception stay written.
\<close>

text \<open>\<^verbatim>\<open>del self.__dict__[key]\<close>\<close>

definition delattr :: "heap \<Rightarrow> addr \<Rightarrow> string \<Rightarrow> exn option \<times> heap" where
  "delattr h self k =
    (case dict_get (self_dict h self) k of
       None \<Rightarrow> (Some (PyExn KeyError [VStr k]), h)
     | Some v \<Rightarrow> (None, h[self := ODict (dict_del k (self_dict h self))]))"

text \<open>
  \<^verbatim>\<open>self.PkRows.append(pk_row)\<close>: the attribute is looked up in the instance dictionary,
  and the list it refers to is extended in place.
\<close>

definition append_PkRows :: "heap \<Rightarrow> addr \<Rightarrow> val \<Rightarrow> exn option \<times> heap" where
  "append_PkRows h self v =
    (case dict_get (self_dict h self) ''PkRows'' of
       Some (VRef l) \<Rightarrow>
         (case obj_at h l of
            Some (OList xs) \<Rightarrow> (None, h[l := OList (xs @ [v])])
          | _ \<Rightarrow> (Some (PyExn AttributeError [VStr ''append'']), h))
     | _ \<Rightarrow> (Some (PyExn AttributeError [VStr ''append'']), h))"

text \<open>
  The loop over \<^verbatim>\<open>raw_response['PkValues']\<close> for the entries \<open>pkLists\<close> still to come. Each
  turn skips a false entry; otherwise it looks \<^verbatim>\<open>PkColNames\<close> up again, zips it with the
  entry into a new list and appends that to \<^verbatim>\<open>self.PkRows\<close>. The loop writes only to
  objects allocated by this call, so the list under iteration keeps the elements it had
  when the loop began.
\<close>

fun pk_loop :: "heap \<Rightarrow> val \<Rightarrow> addr \<Rightarrow> val list \<Rightarrow> exn option \<times> heap" where
  "pk_loop h raw_response self [] = (None, h)"
| "pk_loop h raw_response self (pkList # rest) =
    (if \<not> truthy h pkList then pk_loop h raw_response self rest
     else
       (case getitem h raw_response ''PkColNames'' of
          Inl e \<Rightarrow> (Some e, h)
        | Inr cols \<Rightarrow>
            (case iter h cols of
               Inl e \<Rightarrow> (Some (izip_error 1), h)
             | Inr cs \<Rightarrow>
                 (case iter h pkList of
                    Inl e \<Rightarrow> (Some (izip_error 2), h)
                  | Inr vs \<Rightarrow>
                      (case alloc h (OList (izip cs vs)) of
                         (pk_row, h1) \<Rightarrow>
                           (case append_PkRows h1 self (VRef pk_row) of
                              (Some e, h2) \<Rightarrow> (Some e, h2)
                            | (None, h2) \<Rightarrow> pk_loop h2 raw_response self rest))))))"

text \<open>
  The part of the constructor after the two \<^verbatim>\<open>del\<close> statements: return at once when
  \<^verbatim>\<open>raw_response['PkColNames']\<close> is false, otherwise run the loop over
  \<^verbatim>\<open>raw_response['PkValues']\<close>.
\<close>

definition fill_PkRows :: "heap \<Rightarrow> val \<Rightarrow> addr \<Rightarrow> exn option \<times> heap" where
  "fill_PkRows h raw_response self =
    (case getitem h raw_response ''PkColNames'' of
       Inl e \<Rightarrow> (Some e, h)
     | Inr cols \<Rightarrow>
         (if \<not> truthy h cols then (None, h)
          else
            (case getitem h raw_response ''PkValues'' of
               Inl e \<Rightarrow> (Some e, h)
             | Inr vals \<Rightarrow>
                 (case iter h vals of
                    Inl e \<Rightarrow> (Some e, h)
                  | Inr pkLists \<Rightarrow> pk_loop h raw_response self pkLists))))"

text \<open>
  The first part: copy every item of \<^verbatim>\<open>raw_response\<close> into the instance dictionary, bind
  \<^verbatim>\<open>PkRows\<close> to a new empty list, delete \<^verbatim>\<open>PkColNames\<close> and \<^verbatim>\<open>PkValues\<close>.
\<close>

definition copy_items :: "addr \<Rightarrow> (string \<times> val) list \<Rightarrow> heap \<Rightarrow> heap" where
  "copy_items self items h = fold (\<lambda>kv hh. setattr hh self (fst kv) (snd kv)) items h"

definition init_fields :: "heap \<Rightarrow> val \<Rightarrow> addr \<Rightarrow> exn option \<times> heap" where
  "init_fields h raw_response self =
    (case iteritems h raw_response of
       Inl e \<Rightarrow> (Some e, h)
     | Inr items \<Rightarrow>
         (case alloc (copy_items self items h) (OList []) of
            (rows, h2) \<Rightarrow>
              (case delattr (setattr h2 self ''PkRows'' (VRef rows)) self ''PkColNames'' of
                 (Some e, h4) \<Rightarrow> (Some e, h4)
               | (None, h4) \<Rightarrow> delattr h4 self ''PkValues'')))"

text \<open>
  \<^verbatim>\<open>EventData(raw_response)\<close>: the exception raised or the address of the new instance
  dictionary, and the store after the call.
\<close>

definition EventData :: "heap \<Rightarrow> val \<Rightarrow> (exn + addr) \<times> heap" where
  "EventData h raw_response =
    (case alloc h (ODict []) of
       (self, h0) \<Rightarrow>
         (case init_fields h0 raw_response self of
            (Some e, h5) \<Rightarrow> (Inl e, h5)
          | (None, h5) \<Rightarrow>
              (case fill_PkRows h5 raw_response self of
                 (Some e, h6) \<Rightarrow> (Inl e, h6)
               | (None, h6) \<Rightarrow> (Inr self, h6))))"

section \<open>The connection: \<^verbatim>\<open>UpdateStreamConnection\<close>\<close>

text \<open>
  The world the connection runs in: the store, the state of the transport client
  (\<^verbatim>\<open>self.client\<close>, of a type the model leaves open) and the messages written to the log.
\<close>

record 't world =
  store :: heap
  client :: 't
  logged :: "string list"

text \<open>
  The transport client \<^verbatim>\<open>bsonrpc.BsonRpcClient\<close> is not part of this module, so its two
  operations are parameters. \<open>call_op\<close> is \<^verbatim>\<open>client.stream_call(name, args)\<close>, which returns
  nothing or raises. \<open>next_op\<close> is \<^verbatim>\<open>client.stream_next()\<close>, which raises, returns \<^verbatim>\<open>None\<close>,
  or returns a response; a response is given by the value of its \<^verbatim>\<open>reply\<close> attribute.
\<close>

record 't transport =
  call_op :: "string \<Rightarrow> val \<Rightarrow> 't world \<Rightarrow> exn option \<times> 't world"
  next_op :: "'t world \<Rightarrow> (exn + val option) \<times> 't world"

text \<open>
  The exception classes \<^verbatim>\<open>gorpc.GoRpcError\<close> and \<^verbatim>\<open>gorpc.AppError\<close> are declared outside this
  module too; \<open>sub c d\<close> says that class \<open>c\<close> is declared as a proper subclass of \<open>d\<close>. A
  clause \<^verbatim>\<open>except C\<close> catches the instances of \<open>C\<close> and of its subclasses.
\<close>

definition isinstance :: "(excls \<Rightarrow> excls \<Rightarrow> bool) \<Rightarrow> exn \<Rightarrow> excls \<Rightarrow> bool" where
  "isinstance sub e c = (cls e = c \<or> sub (cls e) c)"

text \<open>\<^verbatim>\<open>logging.exception('gorpc low-level error')\<close>\<close>

definition log_exception :: "'t world \<Rightarrow> 't world" where
  "log_exception w = w\<lparr>logged := logged w @ [''gorpc low-level error'']\<rparr>"

text \<open>The \<^verbatim>\<open>except\<close> clauses of \<^verbatim>\<open>stream_start\<close>, applied to an exception raised in its \<^verbatim>\<open>try\<close> block.\<close>

definition start_except ::
  "(excls \<Rightarrow> excls \<Rightarrow> bool) \<Rightarrow> exn \<Rightarrow> 't world \<Rightarrow> (exn + val option) \<times> 't world" where
  "start_except sub e w =
    (if isinstance sub e GoRpcError then (Inl (PyExn OperationalError (args e)), w)
     else (Inl e, log_exception w))"

text \<open>The \<^verbatim>\<open>except\<close> clauses of \<^verbatim>\<open>stream_next\<close>.\<close>

definition next_except ::
  "(excls \<Rightarrow> excls \<Rightarrow> bool) \<Rightarrow> exn \<Rightarrow> 't world \<Rightarrow> (exn + val option) \<times> 't world" where
  "next_except sub e w =
    (if isinstance sub e AppError then (Inl (PyExn DatabaseError (args e)), w)
     else if isinstance sub e GoRpcError then (Inl (PyExn OperationalError (args e)), w)
     else (Inl e, log_exception w))"

text \<open>
  \<^verbatim>\<open>stream_start(start_position)\<close>. The request is the new dictionary
  \<^verbatim>\<open>{"GroupId": start_position}\<close>. The result is the exception raised, \<^verbatim>\<open>None\<close>, or the
  \<^verbatim>\<open>__dict__\<close> of the new event.
\<close>

definition stream_start ::
  "(excls \<Rightarrow> excls \<Rightarrow> bool) \<Rightarrow> 't transport \<Rightarrow> val \<Rightarrow> 't world \<Rightarrow> (exn + val option) \<times> 't world" where
  "stream_start sub T start_position w =
    (case alloc (store w) (ODict [(''GroupId'', start_position)]) of
       (req, h) \<Rightarrow>
         (case call_op T ''UpdateStream.ServeUpdateStream'' (VRef req) (w\<lparr>store := h\<rparr>) of
            (Some e, w1) \<Rightarrow> start_except sub e w1
          | (None, w1) \<Rightarrow>
              (case next_op T w1 of
                 (Inl e, w2) \<Rightarrow> start_except sub e w2
               | (Inr None, w2) \<Rightarrow> (Inr None, w2)
               | (Inr (Some reply), w2) \<Rightarrow>
                   (case EventData (store w2) reply of
                      (Inl e, h') \<Rightarrow> start_except sub e (w2\<lparr>store := h'\<rparr>)
                    | (Inr self, h') \<Rightarrow> (Inr (Some (VRef self)), w2\<lparr>store := h'\<rparr>)))))"

text \<open>\<^verbatim>\<open>stream_next()\<close>\<close>

definition stream_next ::
  "(excls \<Rightarrow> excls \<Rightarrow> bool) \<Rightarrow> 't transport \<Rightarrow> 't world \<Rightarrow> (exn + val option) \<times> 't world" where
  "stream_next sub T w =
    (case next_op T w of
       (Inl e, w2) \<Rightarrow> next_except sub e w2
     | (Inr None, w2) \<Rightarrow> (Inr None, w2)
     | (Inr (Some reply), w2) \<Rightarrow>
         (case EventData (store w2) reply of
            (Inl e, h') \<Rightarrow> next_except sub e (w2\<lparr>store := h'\<rparr>)
          | (Inr self, h') \<Rightarrow> (Inr (Some (VRef self)), w2\<lparr>store := h'\<rparr>)))"

subsection \<open>A scripted transport\<close>

text \<open>
  A transport that follows a script, for running the connection on concrete inputs. It
  records every call it receives (the method name and the argument object as it is at
  that moment), raises from \<^verbatim>\<open>stream_call\<close> what the script says, and answers each
  \<^verbatim>\<open>stream_next\<close> with the next outcome of the script; an exhausted script means no data.
\<close>

record script =
  sent :: "(string \<times> obj option) list"
  call_raises :: "exn option"
  pulls :: "(exn + val option) list"

definition arg_object :: "heap \<Rightarrow> val \<Rightarrow> obj option" where
  "arg_object h v = (case v of VRef a \<Rightarrow> obj_at h a | _ \<Rightarrow> None)"

definition scripted_call :: "string \<Rightarrow> val \<Rightarrow> script world \<Rightarrow> exn option \<times> script world" where
  "scripted_call name arg w =
    (call_raises (client w),
     w\<lparr>client := (client w)\<lparr>sent := sent (client w) @ [(name, arg_object (store w) arg)]\<rparr>\<rparr>)"

definition scripted_next :: "script world \<Rightarrow> (exn + val option) \<times> script world" where
  "scripted_next w =
    (case pulls (client w) of
       [] \<Rightarrow> (Inr None, w)
     | p # ps \<Rightarrow> (p, w\<lparr>client := (client w)\<lparr>pulls := ps\<rparr>\<rparr>))"

definition scripted :: "script transport" where
  "scripted = \<lparr>call_op = scripted_call, next_op = scripted_next\<rparr>"

text \<open>
  The class hierarchy of the transport's exceptions in which \<^verbatim>\<open>AppError\<close> is a subclass of
  \<^verbatim>\<open>GoRpcError\<close>, and the one in which the two classes are unrelated.
\<close>

definition app_below_rpc :: "excls \<Rightarrow> excls \<Rightarrow> bool" where
  "app_below_rpc c d = (c = AppError \<and> d = GoRpcError)"

definition unrelated :: "excls \<Rightarrow> excls \<Rightarrow> bool" where
  "unrelated c d = False"

section \<open>Log positions: \<^verbatim>\<open>Coord\<close>\<close>

text \<open>\<^verbatim>\<open>Coord(group_id, server_id)\<close> allocates an instance with the two attributes.\<close>

definition Coord :: "heap \<Rightarrow> val \<Rightarrow> val \<Rightarrow> addr \<times> heap" where
  "Coord h group_id server_id =
     alloc h (OInst ''Coord'' [(''GroupId'', group_id), (''ServerId'', server_id)])"

section \<open>Reading events and stores\<close>

text \<open>
  A store is closed when every reference kept in one of its objects points into it. The
  stores of a running program are closed: Python has no dangling references.
\<close>

fun val_ok :: "nat \<Rightarrow> val \<Rightarrow> bool" where
  "val_ok n (VRef a) = (a < n)"
| "val_ok n (VTuple xs) = list_all (val_ok n) xs"
| "val_ok n v = True"

fun obj_vals :: "obj \<Rightarrow> val list" where
  "obj_vals (OList xs) = xs"
| "obj_vals (ODict kvs) = map snd kvs"
| "obj_vals (OInst c kvs) = map snd kvs"

definition closed :: "heap \<Rightarrow> bool" where
  "closed h = list_all (\<lambda>ob. list_all (val_ok (length h)) (obj_vals ob)) h"

text \<open>The entries of a value: what iterating over it yields, nothing if it is not iterable.\<close>

definition entries :: "heap \<Rightarrow> val \<Rightarrow> val list" where
  "entries h v = (case iter h v of Inr xs \<Rightarrow> xs | Inl e \<Rightarrow> [])"

definition iterable :: "heap \<Rightarrow> val \<Rightarrow> bool" where
  "iterable h v = (case iter h v of Inr xs \<Rightarrow> True | Inl e \<Rightarrow> False)"

text \<open>
  A turn of the loop on the entry \<open>pkList\<close> goes through when the entry is false, or when
  both the column names and the entry are iterable.
\<close>

definition turn_ok :: "heap \<Rightarrow> val \<Rightarrow> val \<Rightarrow> bool" where
  "turn_ok h cols pkList = (if truthy h pkList then iterable h cols \<and> iterable h pkList else True)"

text \<open>The elements of the list a value refers to.\<close>

definition list_at :: "heap \<Rightarrow> val \<Rightarrow> val list option" where
  "list_at h v =
    (case v of
       VRef a \<Rightarrow> (case obj_at h a of Some (OList xs) \<Rightarrow> Some xs | _ \<Rightarrow> None)
     | _ \<Rightarrow> None)"

text \<open>
  \<^verbatim>\<open>PkRows\<close> of the event at \<open>self\<close>, read out of the store: the list of its rows, each row
  the list of its pairs.
\<close>

definition PkRows_of :: "heap \<Rightarrow> addr \<Rightarrow> val list list option" where
  "PkRows_of h self =
    (case dict_get (self_dict h self) ''PkRows'' of
       None \<Rightarrow> None
     | Some v \<Rightarrow> (case list_at h v of None \<Rightarrow> None | Some rs \<Rightarrow> those (map (list_at h) rs)))"

text \<open>
  The value of an event: its fields other than \<^verbatim>\<open>PkRows\<close> as they stand in its dictionary,
  and the content of \<^verbatim>\<open>PkRows\<close>.
\<close>

definition event_value :: "heap \<Rightarrow> addr \<Rightarrow> (string \<times> val) list \<times> val list list option" where
  "event_value h self = (dict_del ''PkRows'' (self_dict h self), PkRows_of h self)"

text \<open>
  The store right after a successful constructor call on the store \<open>b\<close>: the instance
  dictionary \<open>d\<close>, the list \<^verbatim>\<open>PkRows\<close> and one list per row follow the objects of \<open>b\<close>.
\<close>

definition event_store :: "heap \<Rightarrow> (string \<times> val) list \<Rightarrow> val list list \<Rightarrow> heap" where
  "event_store b d rc =
     b @ [ODict d, OList (map (\<lambda>i. VRef (Suc (Suc (length b + i)))) [0 ..< length rc])] @ map OList rc"

text \<open>The instance dictionary the constructor builds from the items of the reply.\<close>

definition event_dict :: "addr \<Rightarrow> (string \<times> val) list \<Rightarrow> (string \<times> val) list" where
  "event_dict rows items =
     dict_del ''PkValues'' (dict_del ''PkColNames'' (dict_set ''PkRows'' (VRef rows)
       (fold (\<lambda>kv d. dict_set (fst kv) (snd kv) d) items [])))"

text \<open>The rows the constructor builds from the column names \<open>cols\<close> and the value lists \<open>vals\<close>.\<close>

definition rows_for :: "heap \<Rightarrow> val \<Rightarrow> val \<Rightarrow> val list list" where
  "rows_for h cols vals =
    (if truthy h cols
     then map (\<lambda>pkList. izip (entries h cols) (entries h pkList))
            (filter (truthy h) (entries h vals))
     else [])"

section \<open>Concrete inputs\<close>

definition script_world :: "heap \<Rightarrow> (exn + val option) list \<Rightarrow> script world" where
  "script_world h ps =
     \<lparr>store = h, client = \<lparr>sent = [], call_raises = None, pulls = ps\<rparr>, logged = []\<rparr>"

definition io_error :: exn where
  "io_error = PyExn (OtherClass ''IOError'') [VStr ''connection reset'']"

definition app_error :: exn where
  "app_error = PyExn AppError [VStr ''bad position'']"

text \<open>
  A row-change reply with two key columns and three value lists, the middle one empty;
  a reply without \<^verbatim>\<open>PkColNames\<close>; a reply without \<^verbatim>\<open>PkValues\<close>; and a reply in which both
  are \<^verbatim>\<open>None\<close>.
\<close>

definition row_reply :: heap where
  "row_reply =
     [ODict [(''Category'', VStr ''DML''), (''PkColNames'', VRef 1), (''PkValues'', VRef 2),
             (''TableName'', VStr ''users'')],
      OList [VStr ''id'', VStr ''shard''],
      OList [VRef 3, VRef 4, VRef 5],
      OList [VInt 42, VInt 1],
      OList [],
      OList [VInt 43, VInt 2]]"

definition reply_without_colnames :: heap where
  "reply_without_colnames = [ODict [(''Category'', VStr ''DDL''), (''PkValues'', VNone)]]"

definition reply_without_values :: heap where
  "reply_without_values = [ODict [(''Category'', VStr ''DDL''), (''PkColNames'', VNone)]]"

definition reply_with_nulls :: heap where
  "reply_with_nulls =
     [ODict [(''Category'', VStr ''DDL''), (''PkColNames'', VNone), (''PkValues'', VNone)]]"

text \<open>
  A reply whose value lists differ in length from the two column names: one value in the
  first list, three in the second.
\<close>

definition ragged_reply :: heap where
  "ragged_reply =
     [ODict [(''Category'', VStr ''DML''), (''PkColNames'', VRef 1), (''PkValues'', VRef 2)],
      OList [VStr ''id'', VStr ''shard''],
      OList [VRef 3, VRef 4],
      OList [VInt 42],
      OList [VInt 43, VInt 2, VInt 7]]"

section \<open>The connection: requests, end of stream and errors\<close>

lemma script_world_sel:
  "store (script_world h ps) = h"
  "sent (client (script_world h ps)) = []"
  "call_raises (client (script_world h ps)) = None"
  "pulls (client (script_world h ps)) = ps"
  "logged (script_world h ps) = []"
  by (simp_all add: script_world_def)

text \<open>
  Claim C1, as amended. \<^verbatim>\<open>stream_start\<close> issues one remote call, to the method
  \<^verbatim>\<open>UpdateStream.ServeUpdateStream\<close>, and its argument is the dictionary with the single key
  \<^verbatim>\<open>GroupId\<close> bound to the value the caller passed as \<^verbatim>\<open>start_position\<close>, whatever that
  value is: the function takes no attribute of it.
\<close>

theorem request_is_start_position:
  "sent (client (snd (stream_start sub scripted p w))) =
     sent (client w) @ [(''UpdateStream.ServeUpdateStream'', Some (ODict [(''GroupId'', p)]))]"
  by (auto simp: stream_start_def alloc_def scripted_def scripted_call_def scripted_next_def
        start_except_def log_exception_def arg_object_def obj_at_def
      split: prod.splits sum.splits option.splits list.splits)

text \<open>
  Claim C1 as stated fails: started with a \<^verbatim>\<open>Coord\<close> whose \<^verbatim>\<open>GroupId\<close> is \<^verbatim>\<open>'g1'\<close> and whose
  \<^verbatim>\<open>ServerId\<close> is \<^verbatim>\<open>'s1'\<close>, the request is not \<^verbatim>\<open>{"GroupId": 'g1'}\<close>; it carries the
  reference to the \<^verbatim>\<open>Coord\<close> itself, server identifier included.
\<close>

theorem request_of_coord_counterexample:
  "Coord [] (VStr ''g1'') (VStr ''s1'') =
     (0, [OInst ''Coord'' [(''GroupId'', VStr ''g1''), (''ServerId'', VStr ''s1'')]])
   \<and> sent (client (snd (stream_start app_below_rpc scripted (VRef 0)
          (script_world (snd (Coord [] (VStr ''g1'') (VStr ''s1''))) [])))) \<noteq>
       [(''UpdateStream.ServeUpdateStream'', Some (ODict [(''GroupId'', VStr ''g1'')]))]
   \<and> sent (client (snd (stream_start app_below_rpc scripted (VRef 0)
          (script_world (snd (Coord [] (VStr ''g1'') (VStr ''s1''))) [])))) =
       [(''UpdateStream.ServeUpdateStream'', Some (ODict [(''GroupId'', VRef 0)]))]"
  by (simp add: Coord_def alloc_def stream_start_def scripted_def scripted_call_def
        scripted_next_def script_world_def arg_object_def obj_at_def)

text \<open>
  Claim C2 fails for \<^verbatim>\<open>stream_start\<close>, which has no clause for \<^verbatim>\<open>gorpc.AppError\<close>. When the
  pull raises an \<^verbatim>\<open>AppError\<close>, \<^verbatim>\<open>stream_next\<close> raises \<^verbatim>\<open>DatabaseError\<close>, while \<^verbatim>\<open>stream_start\<close>
  raises \<^verbatim>\<open>OperationalError\<close> if \<^verbatim>\<open>AppError\<close> is a subclass of \<^verbatim>\<open>GoRpcError\<close>, and logs and
  re-raises the \<^verbatim>\<open>AppError\<close> itself if it is not.
\<close>

theorem app_error_on_start_and_next:
  "fst (stream_next app_below_rpc scripted (script_world [] [Inl app_error])) =
     Inl (PyExn DatabaseError [VStr ''bad position''])
   \<and> fst (stream_start app_below_rpc scripted (VStr ''g1'') (script_world [] [Inl app_error])) =
     Inl (PyExn OperationalError [VStr ''bad position''])
   \<and> fst (stream_next unrelated scripted (script_world [] [Inl app_error])) =
     Inl (PyExn DatabaseError [VStr ''bad position''])
   \<and> fst (stream_start unrelated scripted (VStr ''g1'') (script_world [] [Inl app_error])) =
     Inl (PyExn AppError [VStr ''bad position''])"
  by (simp add: stream_next_def stream_start_def alloc_def scripted_def scripted_call_def
        scripted_next_def script_world_def next_except_def start_except_def isinstance_def
        app_error_def app_below_rpc_def unrelated_def)

text \<open>
  Claim C5. \<^verbatim>\<open>stream_next\<close> returns \<^verbatim>\<open>None\<close> exactly when the pull returns \<^verbatim>\<open>None\<close>, and
  \<^verbatim>\<open>stream_start\<close> returns \<^verbatim>\<open>None\<close> exactly when its remote call went through and the pull
  that follows returns \<^verbatim>\<open>None\<close>. Returning \<^verbatim>\<open>None\<close> is a normal return, not an exception.
\<close>

theorem stream_none_iff:
  "(fst (stream_next sub T w) = Inr None) = (fst (next_op T w) = Inr None)
   \<and> (fst (stream_start sub T p w) = Inr None) =
       (fst (call_op T ''UpdateStream.ServeUpdateStream'' (VRef (length (store w)))
               (w\<lparr>store := store w @ [ODict [(''GroupId'', p)]]\<rparr>)) = None
        \<and> fst (next_op T (snd (call_op T ''UpdateStream.ServeUpdateStream''
               (VRef (length (store w)))
               (w\<lparr>store := store w @ [ODict [(''GroupId'', p)]]\<rparr>)))) = Inr None)"
  by (auto simp: stream_next_def stream_start_def alloc_def next_except_def start_except_def
           split: prod.splits sum.splits option.splits)

text \<open>
  Claim C8. An exception raised by the pull that is neither an \<^verbatim>\<open>AppError\<close> nor a
  \<^verbatim>\<open>GoRpcError\<close> comes out of \<^verbatim>\<open>stream_next\<close> and of \<^verbatim>\<open>stream_start\<close> as it is, after one
  message has been written to the log.
\<close>

theorem unknown_exception_reraised:
  assumes "\<not> isinstance sub e AppError" and "\<not> isinstance sub e GoRpcError"
  shows "(next_op T w = (Inl e, w') \<longrightarrow>
            stream_next sub T w = (Inl e, w'\<lparr>logged := logged w' @ [''gorpc low-level error'']\<rparr>))
       \<and> (call_op T ''UpdateStream.ServeUpdateStream'' (VRef (length (store w)))
               (w\<lparr>store := store w @ [ODict [(''GroupId'', p)]]\<rparr>) = (None, w1)
          \<and> next_op T w1 = (Inl e, w2) \<longrightarrow>
            stream_start sub T p w = (Inl e, w2\<lparr>logged := logged w2 @ [''gorpc low-level error'']\<rparr>))"
  using assms
  by (simp add: stream_next_def stream_start_def alloc_def next_except_def start_except_def
        log_exception_def)

theorem unknown_exception_reraised_witness:
  "stream_next app_below_rpc scripted (script_world [] [Inl io_error]) =
     (Inl io_error, (script_world [] [])\<lparr>logged := [''gorpc low-level error'']\<rparr>)
   \<and> fst (stream_start app_below_rpc scripted (VStr ''g1'') (script_world [] [Inl io_error])) =
     Inl io_error
   \<and> logged (snd (stream_start app_below_rpc scripted (VStr ''g1'')
        (script_world [] [Inl io_error]))) = [''gorpc low-level error'']"
proof -
  let ?w = "script_world [] [Inl io_error]"
  let ?c = "call_op scripted ''UpdateStream.ServeUpdateStream'' (VRef (length (store ?w)))
              (?w\<lparr>store := store ?w @ [ODict [(''GroupId'', VStr ''g1'')]]\<rparr>)"
  have a: "\<not> isinstance app_below_rpc io_error AppError"
    by (simp add: isinstance_def app_below_rpc_def io_error_def)
  have b: "\<not> isinstance app_below_rpc io_error GoRpcError"
    by (simp add: isinstance_def app_below_rpc_def io_error_def)
  have n: "next_op scripted ?w = (Inl io_error, script_world [] [])"
    by (simp add: scripted_def scripted_next_def script_world_def)
  have c: "?c = (None, snd ?c)"
    by (simp add: scripted_def scripted_call_def script_world_def)
  have m: "next_op scripted (snd ?c) = (Inl io_error, (snd ?c)\<lparr>client := (client (snd ?c))\<lparr>pulls := []\<rparr>\<rparr>)"
    by (simp add: scripted_def scripted_call_def scripted_next_def script_world_def)
  have l: "logged (snd ?c) = []"
    by (simp add: scripted_def scripted_call_def script_world_def)
  from unknown_exception_reraised [OF a b, of scripted ?w "script_world [] []" "VStr ''g1''"
      "snd ?c" "(snd ?c)\<lparr>client := (client (snd ?c))\<lparr>pulls := []\<rparr>\<rparr>"] n c m l
  show ?thesis by (simp add: script_world_sel)
qed

section \<open>The decoder\<close>

subsection \<open>Dictionary operations\<close>

lemma dict_get_set: "dict_get (dict_set k v d) k' = (if k' = k then Some v else dict_get d k')"
  by (induction d) auto

lemma dict_get_del: "dict_get (dict_del k d) k' = (if k' = k then None else dict_get d k')"
  by (induction d) auto

lemma dict_get_None_iff: "(dict_get d k = None) = (k \<notin> dict_keys d)"
  by (induction d) (auto simp: dict_keys_def)

lemma dict_keys_set: "dict_keys (dict_set k v d) = insert k (dict_keys d)"
  by (induction d) (auto simp: dict_keys_def)

lemma dict_keys_del: "dict_keys (dict_del k d) = dict_keys d - {k}"
  by (induction d) (auto simp: dict_keys_def)

lemma dict_keys_fold:
  "dict_keys (fold (\<lambda>kv d. dict_set (fst kv) (snd kv) d) items d0) = dict_keys items \<union> dict_keys d0"
proof (induction items arbitrary: d0)
  case Nil
  show ?case by (simp add: dict_keys_def)
next
  case (Cons kv items)
  show ?case by (simp add: Cons.IH dict_keys_set) (auto simp: dict_keys_def)
qed

lemma dict_del_set_same: "dict_del k (dict_set k v d) = dict_del k d"
  by (induction d) auto

lemma dict_del_commute: "dict_del k (dict_del k' d) = dict_del k' (dict_del k d)"
  by (induction d) auto

lemma dict_vals_set: "set (map snd (dict_set k v d)) \<subseteq> insert v (set (map snd d))"
  by (induction d) auto

lemma dict_get_in_vals: "dict_get d k = Some v \<Longrightarrow> v \<in> set (map snd d)"
  by (induction d) (auto split: if_splits)

subsection \<open>The shape of the store after the constructor\<close>

lemma length_event_store: "length (event_store b d rc) = length b + 2 + length rc"
  by (simp add: event_store_def)

lemma obj_at_event_store_old: "a < length b \<Longrightarrow> obj_at (event_store b d rc) a = Some (b ! a)"
  by (simp add: event_store_def obj_at_def nth_append)

lemma obj_at_event_store_self: "obj_at (event_store b d rc) (length b) = Some (ODict d)"
  by (simp add: event_store_def obj_at_def nth_append)

lemma self_dict_event_store: "self_dict (event_store b d rc) (length b) = d"
  by (simp add: self_dict_def obj_at_event_store_self)

lemma obj_at_event_store_rows:
  "obj_at (event_store b d rc) (Suc (length b)) =
     Some (OList (map (\<lambda>i. VRef (Suc (Suc (length b + i)))) [0 ..< length rc]))"
  by (simp add: event_store_def obj_at_def nth_append)

lemma obj_at_event_store_row:
  "i < length rc \<Longrightarrow> obj_at (event_store b d rc) (Suc (Suc (length b + i))) = Some (OList (rc ! i))"
  by (simp add: event_store_def obj_at_def nth_append)

lemma event_store_append_row:
  "(event_store b d rc @ [OList row])[Suc (length b) :=
      OList (map (\<lambda>i. VRef (Suc (Suc (length b + i)))) [0 ..< length rc] @ [VRef (Suc (Suc (length b + length rc)))])]
   = event_store b d (rc @ [row])"
  by (simp add: event_store_def list_update_append)

lemma take_event_store: "take (length b) (event_store b d rc) = b"
  by (simp add: event_store_def)


subsection \<open>Reads of older objects do not see the new ones\<close>

lemma obj_at_append_old: "a < length b \<Longrightarrow> obj_at (b @ t) a = obj_at b a"
  by (simp add: obj_at_def nth_append)

lemma truthy_append: "val_ok (length b) v \<Longrightarrow> truthy (b @ t) v = truthy b v"
  by (cases v) (simp_all add: truthy_def obj_at_append_old)

lemma type_name_append: "val_ok (length b) v \<Longrightarrow> type_name (b @ t) v = type_name b v"
  by (cases v) (simp_all add: type_name_def obj_at_append_old)

lemma iter_append: "val_ok (length b) v \<Longrightarrow> iter (b @ t) v = iter b v"
  by (cases v)
     (simp_all add: iter_def not_iterable_def type_name_append obj_at_append_old
        split: option.splits obj.splits)

lemma getitem_append: "r < length b \<Longrightarrow> getitem (b @ t) (VRef r) k = getitem b (VRef r) k"
  by (simp add: getitem_def obj_at_append_old)

lemma truthy_event_store:
  "val_ok (length b) v \<Longrightarrow> truthy (event_store b d rc) v = truthy b v"
  by (simp add: event_store_def truthy_append)

lemma iter_event_store:
  "val_ok (length b) v \<Longrightarrow> iter (event_store b d rc) v = iter b v"
  by (simp add: event_store_def iter_append)

lemma getitem_event_store:
  "r < length b \<Longrightarrow> getitem (event_store b d rc) (VRef r) k = getitem b (VRef r) k"
  by (simp add: event_store_def getitem_append)

lemma those_map_Some: "those (map Some xs) = Some xs"
  by (induction xs) simp_all

lemma list_at_rows:
  "map (list_at (event_store b d rc) \<circ> (\<lambda>i. VRef (Suc (Suc (length b + i))))) [0 ..< length rc]
     = map Some rc"
  by (rule nth_equalityI) (simp_all add: list_at_def obj_at_event_store_row)

lemma PkRows_of_event_store:
  "dict_get d ''PkRows'' = Some (VRef (Suc (length b))) \<Longrightarrow>
     PkRows_of (event_store b d rc) (length b) = Some rc"
  by (simp add: PkRows_of_def self_dict_event_store list_at_def obj_at_event_store_rows
        list_at_rows those_map_Some)

subsection \<open>One turn of the loop\<close>

lemma append_PkRows_event_store:
  assumes "dict_get d ''PkRows'' = Some (VRef (Suc (length b)))"
  shows "append_PkRows (event_store b d rc @ [OList row]) (length b)
           (VRef (length (event_store b d rc))) = (None, event_store b d (rc @ [row]))"
proof -
  have s: "self_dict (event_store b d rc @ [OList row]) (length b) = d"
    by (simp add: self_dict_def obj_at_def event_store_def nth_append)
  have r: "obj_at (event_store b d rc @ [OList row]) (Suc (length b)) =
             Some (OList (map (\<lambda>i. VRef (Suc (Suc (length b + i)))) [0 ..< length rc]))"
    by (simp add: obj_at_def event_store_def nth_append)
  show ?thesis
    using event_store_append_row [of b d rc row]
    by (simp add: append_PkRows_def s r assms length_event_store)
qed


subsection \<open>The loop\<close>

lemma pk_loop_shape:
  assumes "dict_get d ''PkRows'' = Some (VRef (Suc (length b)))"
  shows "pk_loop (event_store b d rc) raw (length b) pks = (res, H) \<Longrightarrow>
           \<exists>rc'. H = event_store b d (rc @ rc') \<and> length rc' \<le> length pks"
proof (induction pks arbitrary: rc)
  case Nil
  then show ?case by auto
next
  case (Cons pk pks)
  let ?H = "event_store b d rc"
  show ?case
  proof (cases "truthy ?H pk")
    case False
    with Cons.prems have "pk_loop ?H raw (length b) pks = (res, H)" by simp
    from Cons.IH [OF this] show ?thesis by auto
  next
    case True
    show ?thesis
    proof (cases "\<exists>cols cs vs. getitem ?H raw ''PkColNames'' = Inr cols
                    \<and> iter ?H cols = Inr cs \<and> iter ?H pk = Inr vs")
      case False
      with True Cons.prems have "H = event_store b d (rc @ [])"
        by (auto split: sum.splits)
      then show ?thesis by (metis list.size(3) le0)
    next
      case True
      then obtain cols cs vs where "getitem ?H raw ''PkColNames'' = Inr cols"
        "iter ?H cols = Inr cs" "iter ?H pk = Inr vs" by blast
      with \<open>truthy ?H pk\<close> Cons.prems
      have "pk_loop (event_store b d (rc @ [izip cs vs])) raw (length b) pks = (res, H)"
        by (simp add: alloc_def append_PkRows_event_store [OF assms])
      from Cons.IH [OF this] obtain rc' where
        "H = event_store b d ((rc @ [izip cs vs]) @ rc')" "length rc' \<le> length pks" by blast
      then have "H = event_store b d (rc @ (izip cs vs # rc'))
                 \<and> length (izip cs vs # rc') \<le> length (pk # pks)"
        by simp
      then show ?thesis by blast
    qed
  qed
qed

lemma iter_entries: "iterable h v \<Longrightarrow> iter h v = Inr (entries h v)"
  by (simp add: iterable_def entries_def split: sum.splits)

lemma pk_loop_rows:
  assumes d: "dict_get d ''PkRows'' = Some (VRef (Suc (length b)))"
    and r: "r < length b"
    and c: "getitem b (VRef r) ''PkColNames'' = Inr cols"
    and cok: "val_ok (length b) cols"
  shows "list_all (val_ok (length b)) pks \<Longrightarrow> list_all (turn_ok b cols) pks \<Longrightarrow>
         pk_loop (event_store b d rc) (VRef r) (length b) pks =
           (None, event_store b d
             (rc @ map (\<lambda>pk. izip (entries b cols) (entries b pk)) (filter (truthy b) pks)))"
proof (induction pks arbitrary: rc)
  case Nil
  show ?case by simp
next
  case (Cons pk pks)
  from Cons.prems have pk: "val_ok (length b) pk" and pks: "list_all (val_ok (length b)) pks"
    and t: "turn_ok b cols pk" and ts: "list_all (turn_ok b cols) pks" by simp_all
  show ?case
  proof (cases "truthy b pk")
    case False
    then show ?thesis
      using Cons.IH [OF pks ts] by (simp add: truthy_event_store pk)
  next
    case True
    with t have "iter b cols = Inr (entries b cols)" "iter b pk = Inr (entries b pk)"
      by (simp_all add: turn_ok_def iter_entries)
    then show ?thesis
      using True Cons.IH [OF pks ts, of "rc @ [izip (entries b cols) (entries b pk)]"]
      by (simp add: truthy_event_store pk getitem_event_store r c iter_event_store cok
            alloc_def append_PkRows_event_store [OF d])
  qed
qed

lemma pk_loop_fails:
  assumes d: "dict_get d ''PkRows'' = Some (VRef (Suc (length b)))"
    and r: "r < length b"
    and c: "getitem b (VRef r) ''PkColNames'' = Inr cols"
    and cok: "val_ok (length b) cols"
  shows "list_all (val_ok (length b)) pks \<Longrightarrow> \<not> list_all (turn_ok b cols) pks \<Longrightarrow>
         fst (pk_loop (event_store b d rc) (VRef r) (length b) pks) \<noteq> None"
proof (induction pks arbitrary: rc)
  case Nil
  then show ?case by simp
next
  case (Cons pk pks)
  from Cons.prems have pk: "val_ok (length b) pk" and pks: "list_all (val_ok (length b)) pks"
    by simp_all
  show ?case
  proof (cases "truthy b pk")
    case False
    then have "turn_ok b cols pk" by (simp add: turn_ok_def)
    with Cons.prems have "\<not> list_all (turn_ok b cols) pks" by simp
    from Cons.IH [OF pks this] show ?thesis
      using False by (simp add: truthy_event_store pk)
  next
    case True
    show ?thesis
    proof (cases "turn_ok b cols pk")
      case False
      with True show ?thesis
        by (auto simp: turn_ok_def iterable_def truthy_event_store pk getitem_event_store r c
              iter_event_store cok split: sum.splits)
    next
      case t: True
      with Cons.prems have n: "\<not> list_all (turn_ok b cols) pks" by simp
      from t True have "iter b cols = Inr (entries b cols)" "iter b pk = Inr (entries b pk)"
        by (simp_all add: turn_ok_def iter_entries)
      then show ?thesis
        using True Cons.IH [OF pks n, of "rc @ [izip (entries b cols) (entries b pk)]"]
        by (simp add: truthy_event_store pk getitem_event_store r c iter_event_store cok
              alloc_def append_PkRows_event_store [OF d])
    qed
  qed
qed

subsection \<open>The first part of the constructor\<close>

lemma setattr_last: "setattr (b @ [ODict d0]) (length b) k v = b @ [ODict (dict_set k v d0)]"
  by (simp add: setattr_def self_dict_def obj_at_def)

lemma copy_items_last:
  "copy_items (length b) items (b @ [ODict d0]) =
     b @ [ODict (fold (\<lambda>kv d. dict_set (fst kv) (snd kv) d) items d0)]"
  unfolding copy_items_def
  by (induction items arbitrary: d0) (simp_all add: setattr_last)

lemma init_fields_dict:
  assumes "r < length b" and "b ! r = ODict items"
  shows "init_fields (b @ [ODict []]) (VRef r) (length b) =
    (if ''PkColNames'' \<notin> dict_keys items
     then (Some (PyExn KeyError [VStr ''PkColNames'']),
           event_store b (dict_set ''PkRows'' (VRef (Suc (length b)))
             (fold (\<lambda>kv d. dict_set (fst kv) (snd kv) d) items [])) [])
     else if ''PkValues'' \<notin> dict_keys items
     then (Some (PyExn KeyError [VStr ''PkValues'']),
           event_store b (dict_del ''PkColNames'' (dict_set ''PkRows'' (VRef (Suc (length b)))
             (fold (\<lambda>kv d. dict_set (fst kv) (snd kv) d) items []))) [])
     else (None, event_store b (event_dict (Suc (length b)) items) []))"
proof -
  let ?F = "fold (\<lambda>kv d. dict_set (fst kv) (snd kv) d) items []"
  let ?D1 = "dict_set ''PkRows'' (VRef (Suc (length b))) ?F"
  have i: "iteritems (b @ [ODict []]) (VRef r) = Inr items"
    using assms by (simp add: iteritems_def obj_at_def nth_append)
  have s: "setattr (b @ [ODict ?F, OList []]) (length b) ''PkRows'' (VRef (Suc (length b))) =
             b @ [ODict ?D1, OList []]"
    by (simp add: setattr_def self_dict_def obj_at_def nth_append list_update_append)
  have sd: "\<And>d. self_dict (b @ [ODict d, OList []]) (length b) = d"
    by (simp add: self_dict_def obj_at_def nth_append)
  have up: "\<And>d d'. (b @ [ODict d, OList []])[length b := ODict d'] = b @ [ODict d', OList []]"
    by (simp add: list_update_append)
  have k1: "(dict_get ?D1 ''PkColNames'' = None) = (''PkColNames'' \<notin> dict_keys items)"
    by (simp add: dict_get_None_iff dict_keys_set dict_keys_fold) (simp add: dict_keys_def)
  have k2: "(dict_get (dict_del ''PkColNames'' ?D1) ''PkValues'' = None) =
              (''PkValues'' \<notin> dict_keys items)"
    by (simp add: dict_get_None_iff dict_keys_set dict_keys_fold dict_keys_del)
       (simp add: dict_keys_def)
  show ?thesis
    using k1 k2
    by (auto simp: init_fields_def i copy_items_last alloc_def s delattr_def sd up
          event_store_def event_dict_def split: option.splits)
qed

lemma init_fields_other:
  assumes "\<not> (\<exists>r items. raw = VRef r \<and> r < length b \<and> b ! r = ODict items)"
  shows "\<exists>e d rc. init_fields (b @ [ODict []]) raw (length b) = (Some e, b @ [ODict d] @ rc)"
proof (cases "iteritems (b @ [ODict []]) raw")
  case (Inl e)
  then have "init_fields (b @ [ODict []]) raw (length b) = (Some e, b @ [ODict []] @ [])"
    by (simp add: init_fields_def)
  then show ?thesis by blast
next
  case (Inr items)
  then obtain r where r: "raw = VRef r" "r < Suc (length b)" "(b @ [ODict []]) ! r = ODict items"
    by (auto simp: iteritems_def obj_at_def split: val.splits option.splits obj.splits if_splits)
  with assms have e: "r = length b" by (auto simp: nth_append split: if_splits)
  with r have "items = []" by simp
  with r e have "init_fields (b @ [ODict []]) raw (length b) =
      (Some (PyExn KeyError [VStr ''PkColNames'']),
       b @ [ODict [(''PkRows'', VRef (Suc (length b)))]] @ [OList []])"
    by (simp add: init_fields_def iteritems_def obj_at_def copy_items_def alloc_def
          setattr_def self_dict_def delattr_def nth_append list_update_append)
  then show ?thesis by blast
qed

subsection \<open>The constructor as a whole\<close>

lemma getitem_dict:
  "r < length b \<Longrightarrow> b ! r = ODict items \<Longrightarrow>
     getitem b (VRef r) k =
       (case dict_get items k of Some v \<Rightarrow> Inr v | None \<Rightarrow> Inl (PyExn KeyError [VStr k]))"
  by (simp add: getitem_def obj_at_def)

lemma getitem_Inr_D:
  assumes "getitem b raw k = Inr v"
  shows "\<exists>r items. raw = VRef r \<and> r < length b \<and> b ! r = ODict items \<and> dict_get items k = Some v"
  using assms
  by (auto simp: getitem_def obj_at_def split: val.splits option.splits obj.splits if_splits)

lemma event_dict_PkRows: "dict_get (event_dict rows items) ''PkRows'' = Some (VRef rows)"
  by (simp add: event_dict_def dict_get_del dict_get_set)

lemma falsy_val_ok: "\<not> truthy b v \<Longrightarrow> val_ok (length b) v"
  by (cases v) (auto simp: truthy_def obj_at_def split: if_splits)

lemma in_keys: "dict_get items k = Some v \<Longrightarrow> k \<in> dict_keys items"
  using dict_get_None_iff [of items k] by auto

lemma EventData_ok:
  assumes r: "r < length b" and ob: "b ! r = ODict items"
    and c: "dict_get items ''PkColNames'' = Some cols"
    and v: "dict_get items ''PkValues'' = Some vals"
    and t: "truthy b cols \<Longrightarrow>
              val_ok (length b) cols \<and> val_ok (length b) vals
              \<and> list_all (val_ok (length b)) (entries b vals)
              \<and> iterable b vals \<and> list_all (turn_ok b cols) (entries b vals)"
  shows "EventData b (VRef r) =
           (Inr (length b), event_store b (event_dict (Suc (length b)) items) (rows_for b cols vals))"
proof -
  let ?D = "event_dict (Suc (length b)) items"
  have i: "init_fields (b @ [ODict []]) (VRef r) (length b) = (None, event_store b ?D [])"
    using in_keys [OF c] in_keys [OF v] by (simp add: init_fields_dict [OF r ob])
  have gc: "getitem (event_store b ?D []) (VRef r) ''PkColNames'' = Inr cols"
    by (simp add: getitem_event_store r getitem_dict [OF r ob] c)
  have gv: "getitem (event_store b ?D []) (VRef r) ''PkValues'' = Inr vals"
    by (simp add: getitem_event_store r getitem_dict [OF r ob] v)
  show ?thesis
  proof (cases "truthy b cols")
    case False
    then have "\<not> truthy (event_store b ?D []) cols"
      by (simp add: truthy_event_store falsy_val_ok)
    with False show ?thesis
      by (simp add: EventData_def alloc_def i fill_PkRows_def gc rows_for_def)
  next
    case True
    from t [OF True] have cok: "val_ok (length b) cols" and vok: "val_ok (length b) vals"
      and eok: "list_all (val_ok (length b)) (entries b vals)"
      and it: "iterable b vals" and ts: "list_all (turn_ok b cols) (entries b vals)"
      by simp_all
    have tc: "truthy (event_store b ?D []) cols" using True by (simp add: truthy_event_store cok)
    have iv: "iter (event_store b ?D []) vals = Inr (entries b vals)"
      by (simp add: iter_event_store vok iter_entries it)
    have gb: "getitem b (VRef r) ''PkColNames'' = Inr cols"
      by (simp add: getitem_dict [OF r ob] c)
    show ?thesis
      using pk_loop_rows [OF event_dict_PkRows r gb cok eok ts, of items "[]"]
      by (simp add: EventData_def alloc_def i fill_PkRows_def gc gv tc iv rows_for_def True)
  qed
qed

lemma EventData_Inr_turns:
  assumes r: "r < length b" and ob: "b ! r = ODict items"
    and c: "dict_get items ''PkColNames'' = Some cols"
    and v: "dict_get items ''PkValues'' = Some vals"
    and cok: "val_ok (length b) cols" and vok: "val_ok (length b) vals"
    and eok: "list_all (val_ok (length b)) (entries b vals)"
    and tr: "truthy b cols"
    and ok: "fst (EventData b (VRef r)) = Inr s"
  shows "iterable b vals \<and> list_all (turn_ok b cols) (entries b vals)"
proof -
  let ?D = "event_dict (Suc (length b)) items"
  have i: "init_fields (b @ [ODict []]) (VRef r) (length b) = (None, event_store b ?D [])"
    using in_keys [OF c] in_keys [OF v] by (simp add: init_fields_dict [OF r ob])
  have gc: "getitem (event_store b ?D []) (VRef r) ''PkColNames'' = Inr cols"
    by (simp add: getitem_event_store r getitem_dict [OF r ob] c)
  have gv: "getitem (event_store b ?D []) (VRef r) ''PkValues'' = Inr vals"
    by (simp add: getitem_event_store r getitem_dict [OF r ob] v)
  have tc: "truthy (event_store b ?D []) cols" using tr by (simp add: truthy_event_store cok)
  have gb: "getitem b (VRef r) ''PkColNames'' = Inr cols"
    by (simp add: getitem_dict [OF r ob] c)
  have it: "iterable b vals"
    using ok by (auto simp: EventData_def alloc_def i fill_PkRows_def gc gv tc iter_event_store vok
        iterable_def split: sum.splits)
  then have iv: "iter (event_store b ?D []) vals = Inr (entries b vals)"
    by (simp add: iter_event_store vok iter_entries)
  have "list_all (turn_ok b cols) (entries b vals)"
  proof (rule ccontr)
    assume "\<not> list_all (turn_ok b cols) (entries b vals)"
    from pk_loop_fails [OF event_dict_PkRows r gb cok eok this, of items "[]"] ok
    show False
      by (auto simp: EventData_def alloc_def i fill_PkRows_def gc gv tc iv
            split: prod.splits option.splits)
  qed
  with it show ?thesis by simp
qed

lemma EventData_Inr_reply:
  assumes "fst (EventData b raw) = Inr s"
  shows "\<exists>r items cols vals. raw = VRef r \<and> r < length b \<and> b ! r = ODict items
            \<and> dict_get items ''PkColNames'' = Some cols
            \<and> dict_get items ''PkValues'' = Some vals"
proof (cases "\<exists>r items. raw = VRef r \<and> r < length b \<and> b ! r = ODict items")
  case False
  from init_fields_other [OF False] assms show ?thesis
    by (auto simp: EventData_def alloc_def)
next
  case True
  then obtain r items where r: "raw = VRef r" "r < length b" "b ! r = ODict items" by blast
  with assms have "''PkColNames'' \<in> dict_keys items" "''PkValues'' \<in> dict_keys items"
    by (auto simp: EventData_def alloc_def init_fields_dict split: if_splits)
  then obtain cols vals where "dict_get items ''PkColNames'' = Some cols"
     "dict_get items ''PkValues'' = Some vals"
    using dict_get_None_iff [of items] by fastforce
  with r show ?thesis by blast
qed

lemma fill_PkRows_shape:
  assumes "dict_get d ''PkRows'' = Some (VRef (Suc (length b)))"
    and "fill_PkRows (event_store b d []) raw (length b) = (res, H)"
  shows "\<exists>rc. H = event_store b d rc"
proof -
  from assms(2) have "(\<exists>pks. pk_loop (event_store b d []) raw (length b) pks = (res, H))
      \<or> H = event_store b d []"
    by (auto simp: fill_PkRows_def split: sum.splits if_splits)
  then show ?thesis
  proof
    assume "\<exists>pks. pk_loop (event_store b d []) raw (length b) pks = (res, H)"
    then obtain pks where "pk_loop (event_store b d []) raw (length b) pks = (res, H)" by blast
    from pk_loop_shape [OF assms(1) this] show ?thesis by auto
  next
    assume "H = event_store b d []"
    then show ?thesis by blast
  qed
qed

lemma EventData_Inr_store:
  assumes "EventData b raw = (Inr s, H)"
  shows "\<exists>r items rc. raw = VRef r \<and> r < length b \<and> b ! r = ODict items \<and> s = length b
           \<and> H = event_store b (event_dict (Suc (length b)) items) rc"
proof -
  from assms have "fst (EventData b raw) = Inr s" by simp
  from EventData_Inr_reply [OF this] obtain r items cols vals where
    r: "raw = VRef r" "r < length b" "b ! r = ODict items"
    and k: "dict_get items ''PkColNames'' = Some cols" "dict_get items ''PkValues'' = Some vals"
    by blast
  let ?D = "event_dict (Suc (length b)) items"
  have i: "init_fields (b @ [ODict []]) (VRef r) (length b) = (None, event_store b ?D [])"
    using in_keys [OF k(1)] in_keys [OF k(2)] by (simp add: init_fields_dict [OF r(2,3)])
  from assms r i have "fst (fill_PkRows (event_store b ?D []) raw (length b)) = None
      \<and> snd (fill_PkRows (event_store b ?D []) raw (length b)) = H" and s: "s = length b"
    by (auto simp: EventData_def alloc_def split: prod.splits option.splits)
  then have "fill_PkRows (event_store b ?D []) raw (length b) = (None, H)"
    by (metis prod.collapse)
  from fill_PkRows_shape [OF event_dict_PkRows this] r s show ?thesis by blast
qed

lemma EventData_frame: "take (length b) (snd (EventData b raw)) = b"
proof (cases "\<exists>r items. raw = VRef r \<and> r < length b \<and> b ! r = ODict items")
  case False
  from init_fields_other [OF False] show ?thesis
    by (auto simp: EventData_def alloc_def)
next
  case True
  then obtain r items where r: "raw = VRef r" "r < length b" "b ! r = ODict items" by blast
  obtain res5 h5 where i: "init_fields (b @ [ODict []]) raw (length b) = (res5, h5)"
    by (cases "init_fields (b @ [ODict []]) raw (length b)")
  show ?thesis
  proof (cases res5)
    case (Some e)
    with i r have "take (length b) h5 = b"
      by (auto simp: init_fields_dict take_event_store split: if_splits)
    with i Some show ?thesis by (simp add: EventData_def alloc_def)
  next
    case None
    with i r have h5: "h5 = event_store b (event_dict (Suc (length b)) items) []"
      by (auto simp: init_fields_dict split: if_splits)
    obtain res6 h6 where f: "fill_PkRows h5 raw (length b) = (res6, h6)"
      by (cases "fill_PkRows h5 raw (length b)")
    from fill_PkRows_shape [OF event_dict_PkRows f [unfolded h5]]
    have "take (length b) h6 = b" by (auto simp: take_event_store)
    with i None f show ?thesis
      by (auto simp: EventData_def alloc_def split: option.splits)
  qed
qed

subsection \<open>Closed stores\<close>

lemma closed_nth:
  "closed b \<Longrightarrow> a < length b \<Longrightarrow> list_all (val_ok (length b)) (obj_vals (b ! a))"
  by (simp add: closed_def list_all_length)

lemma closed_dict_val:
  assumes "closed b" and "r < length b" and "b ! r = ODict items" and "dict_get items k = Some v"
  shows "val_ok (length b) v"
  using closed_nth [OF assms(1,2)] dict_get_in_vals [OF assms(4)] assms(3)
  by (auto simp: list_all_iff)

lemma entries_ok:
  assumes "closed b" and "val_ok (length b) v"
  shows "list_all (val_ok (length b)) (entries b v)"
proof (cases v)
  case (VRef a)
  with assms(2) have a: "a < length b" by simp
  from closed_nth [OF assms(1) a] show ?thesis
    by (cases "b ! a") (simp_all add: entries_def iter_def obj_at_def VRef a list_all_iff not_iterable_def)
next
  case (VStr s)
  then show ?thesis by (simp add: entries_def iter_def list_all_iff)
next
  case (VTuple xs)
  with assms(2) show ?thesis by (simp add: entries_def iter_def)
qed (simp_all add: entries_def iter_def)

lemma val_ok_mono: "val_ok n v \<Longrightarrow> n \<le> m \<Longrightarrow> val_ok m v"
  by (induction n v rule: val_ok.induct) (auto simp: list_all_iff)

lemma entries_event_store:
  "val_ok (length b) v \<Longrightarrow> entries (event_store b d rc) v = entries b v"
  by (simp add: entries_def iter_event_store)

lemma iterable_event_store:
  "val_ok (length b) v \<Longrightarrow> iterable (event_store b d rc) v = iterable b v"
  by (simp add: iterable_def iter_event_store)

lemma turn_ok_event_store:
  "val_ok (length b) cols \<Longrightarrow> val_ok (length b) pk \<Longrightarrow>
     turn_ok (event_store b d rc) cols pk = turn_ok b cols pk"
  by (simp add: turn_ok_def truthy_event_store iterable_event_store)

lemma rows_for_event_store:
  assumes "val_ok (length b) cols" and "val_ok (length b) vals"
    and "list_all (val_ok (length b)) (entries b vals)"
  shows "rows_for (event_store b d rc) cols vals = rows_for b cols vals"
proof -
  have "filter (truthy (event_store b d rc)) (entries b vals) = filter (truthy b) (entries b vals)"
    using assms(3) by (intro filter_cong) (auto simp: list_all_iff truthy_event_store)
  moreover have "map (\<lambda>pk. izip (entries b cols) (entries (event_store b d rc) pk))
                   (filter (truthy b) (entries b vals)) =
                 map (\<lambda>pk. izip (entries b cols) (entries b pk)) (filter (truthy b) (entries b vals))"
    using assms(3) by (intro map_cong) (auto simp: list_all_iff entries_event_store)
  ultimately show ?thesis
    by (simp add: rows_for_def truthy_event_store entries_event_store assms(1,2))
qed

lemma length_rows_for: "length (rows_for h cols vals) \<le> length (entries h vals)"
  by (simp add: rows_for_def)

text \<open>What a successful call must have found, and what it built.\<close>

lemma EventData_Inr_closed:
  assumes cl: "closed b" and ok: "EventData b raw = (Inr s, H)"
  shows "\<exists>r items cols vals. raw = VRef r \<and> r < length b \<and> b ! r = ODict items
           \<and> dict_get items ''PkColNames'' = Some cols \<and> dict_get items ''PkValues'' = Some vals
           \<and> val_ok (length b) cols \<and> val_ok (length b) vals
           \<and> list_all (val_ok (length b)) (entries b vals)
           \<and> (if truthy b cols then iterable b vals \<and> list_all (turn_ok b cols) (entries b vals) else True)
           \<and> s = length b
           \<and> H = event_store b (event_dict (Suc (length b)) items) (rows_for b cols vals)"
proof -
  from ok have f: "fst (EventData b raw) = Inr s" by simp
  from EventData_Inr_reply [OF f] obtain r items cols vals where
    r: "raw = VRef r" "r < length b" "b ! r = ODict items"
    and c: "dict_get items ''PkColNames'' = Some cols"
    and v: "dict_get items ''PkValues'' = Some vals"
    by blast
  have cok: "val_ok (length b) cols" by (rule closed_dict_val [OF cl r(2,3) c])
  have vok: "val_ok (length b) vals" by (rule closed_dict_val [OF cl r(2,3) v])
  have eok: "list_all (val_ok (length b)) (entries b vals)" by (rule entries_ok [OF cl vok])
  have t: "truthy b cols \<Longrightarrow> iterable b vals \<and> list_all (turn_ok b cols) (entries b vals)"
    using EventData_Inr_turns [OF r(2,3) c v cok vok eok _ f [unfolded r(1)]] by blast
  have "EventData b (VRef r) =
      (Inr (length b), event_store b (event_dict (Suc (length b)) items) (rows_for b cols vals))"
    using t cok vok eok by (intro EventData_ok [OF r(2,3) c v]) simp
  with ok r(1) have "s = length b"
    "H = event_store b (event_dict (Suc (length b)) items) (rows_for b cols vals)" by auto
  with r c v cok vok eok t show ?thesis by auto
qed

subsection \<open>Reading events out of the store\<close>

lemma those_mono:
  "those (map f rs) = Some rc \<Longrightarrow> (\<And>x y. f x = Some y \<Longrightarrow> g x = Some y) \<Longrightarrow>
     those (map g rs) = Some rc"
  by (induction rs arbitrary: rc) (auto split: option.splits)

lemma list_at_append: "list_at h v = Some xs \<Longrightarrow> list_at (h @ t) v = Some xs"
  by (auto simp: list_at_def obj_at_def nth_append split: val.splits if_splits obj.splits)

lemma self_dict_append: "s < length h \<Longrightarrow> self_dict (h @ t) s = self_dict h s"
  by (simp add: self_dict_def obj_at_def nth_append)

lemma PkRows_of_append:
  assumes "PkRows_of h s = Some rc"
  shows "PkRows_of (h @ t) s = Some rc"
proof -
  have s: "s < length h"
  proof (rule ccontr)
    assume "\<not> s < length h"
    then have "self_dict h s = []" by (simp add: self_dict_def obj_at_def)
    with assms show False by (simp add: PkRows_of_def)
  qed
  from assms obtain v rs where v: "dict_get (self_dict h s) ''PkRows'' = Some v"
    and l: "list_at h v = Some rs" and t: "those (map (list_at h) rs) = Some rc"
    by (auto simp: PkRows_of_def split: option.splits)
  from those_mono [OF t, of "list_at (h @ t)"] have "those (map (list_at (h @ t)) rs) = Some rc"
    by (simp add: list_at_append)
  with v l show ?thesis
    by (simp add: PkRows_of_def self_dict_append [OF s] list_at_append)
qed

lemma event_store_is_append: "\<exists>t. event_store b d rc = b @ t"
  by (simp add: event_store_def)

lemma dict_del_PkRows_event_dict:
  "dict_del ''PkRows'' (event_dict n items) = dict_del ''PkRows'' (event_dict m items)"
  by (simp add: event_dict_def dict_del_commute [of "''PkRows''"] dict_del_set_same)

lemma event_value_event_store:
  "event_value (event_store b (event_dict (Suc (length b)) items) rc) (length b) =
     (dict_del ''PkRows'' (event_dict 0 items), Some rc)"
  using dict_del_PkRows_event_dict [of "Suc (length b)" items 0]
  by (simp add: event_value_def self_dict_event_store PkRows_of_event_store event_dict_PkRows)

lemma event_value_append:
  assumes "event_value h s = (d, Some rc)"
  shows "event_value (h @ t) s = (d, Some rc)"
proof -
  from assms have p: "PkRows_of h s = Some rc" by (simp add: event_value_def)
  have "s < length h"
  proof (rule ccontr)
    assume "\<not> s < length h"
    then have "self_dict h s = []" by (simp add: self_dict_def obj_at_def)
    with p show False by (simp add: PkRows_of_def)
  qed
  with assms PkRows_of_append [OF p, of t] show ?thesis
    by (simp add: event_value_def self_dict_append)
qed

lemma dict_keys_event_dict:
  "dict_keys (event_dict n items) = insert ''PkRows'' (dict_keys items) - {''PkColNames'', ''PkValues''}"
proof -
  have "dict_keys ([] :: (string \<times> val) list) = {}" by (simp add: dict_keys_def)
  then show ?thesis
    by (simp add: event_dict_def dict_keys_del dict_keys_set dict_keys_fold) blast
qed

lemma izip_zip: "izip cs vs = map (\<lambda>cv. VTuple [fst cv, snd cv]) (zip cs vs)"
  by (induction cs vs rule: izip.induct) simp_all

lemma length_izip: "length (izip cs vs) = min (length cs) (length vs)"
  by (simp add: izip_zip)

subsection \<open>The claims about the decoder\<close>

text \<open>
  Claim C9. The constructor does not write to any object that existed before the call:
  the store after the call, whether it returned or raised, begins with the store before
  it, object for object. The reply dictionary and the lists behind \<^verbatim>\<open>PkColNames\<close> and
  \<^verbatim>\<open>PkValues\<close> are among those objects; everything written is newly allocated.
\<close>

theorem decode_leaves_store:
  "take (length h) (snd (EventData h raw)) = h
   \<and> length h \<le> length (snd (EventData h raw))"
proof -
  have "take (length h) (snd (EventData h raw)) = h" by (rule EventData_frame)
  moreover from this have "length h \<le> length (snd (EventData h raw))"
    by (metis length_take min.cobounded1)
  ultimately show ?thesis by simp
qed

text \<open>
  Claim C7. Decoding the same reply a second time, in the store the first call left
  behind, succeeds again and yields an event of the same value as the first: the same
  fields and the same content of \<^verbatim>\<open>PkRows\<close>. The first event is not changed by the second
  call.
\<close>

theorem decode_twice_equal:
  assumes "closed h" and "EventData h raw = (Inr s1, h1)"
  shows "\<exists>s2 h2. EventData h1 raw = (Inr s2, h2)
           \<and> event_value h2 s2 = event_value h1 s1
           \<and> event_value h2 s1 = event_value h1 s1"
proof -
  from EventData_Inr_closed [OF assms] obtain r items cols vals where
    r: "raw = VRef r" "r < length h" "h ! r = ODict items"
    and c: "dict_get items ''PkColNames'' = Some cols"
    and v: "dict_get items ''PkValues'' = Some vals"
    and cok: "val_ok (length h) cols" and vok: "val_ok (length h) vals"
    and eok: "list_all (val_ok (length h)) (entries h vals)"
    and t: "if truthy h cols then iterable h vals \<and> list_all (turn_ok h cols) (entries h vals) else True"
    and s1: "s1 = length h"
    and h1: "h1 = event_store h (event_dict (Suc (length h)) items) (rows_for h cols vals)"
    by blast
  let ?rc = "rows_for h cols vals"
  have len: "length h \<le> length h1" by (simp add: h1 length_event_store)
  have r1: "r < length h1" using r(2) len by simp
  have ob1: "h1 ! r = ODict items"
    using obj_at_event_store_old [OF r(2), of "event_dict (Suc (length h)) items" ?rc] r1 r(3)
    by (simp add: h1 obj_at_def)
  have e1: "entries h1 vals = entries h vals" by (simp add: h1 entries_event_store vok)
  have ts: "list_all (turn_ok h1 cols) (entries h vals) = list_all (turn_ok h cols) (entries h vals)"
    using eok by (intro list.pred_cong) (auto simp: list_all_iff h1 turn_ok_event_store cok)
  have t1: "truthy h1 cols \<Longrightarrow>
              val_ok (length h1) cols \<and> val_ok (length h1) vals
              \<and> list_all (val_ok (length h1)) (entries h1 vals)
              \<and> iterable h1 vals \<and> list_all (turn_ok h1 cols) (entries h1 vals)"
  proof -
    assume "truthy h1 cols"
    then have "truthy h cols" by (simp add: h1 truthy_event_store cok)
    with t have "iterable h vals" "list_all (turn_ok h cols) (entries h vals)" by simp_all
    then have "iterable h1 vals" "list_all (turn_ok h1 cols) (entries h1 vals)"
      by (simp_all add: e1 ts) (simp add: h1 iterable_event_store vok)
    moreover have "list_all (val_ok (length h1)) (entries h1 vals)"
      using eok len by (auto simp: e1 list_all_iff intro: val_ok_mono)
    ultimately show ?thesis using cok vok len by (auto intro: val_ok_mono)
  qed
  have rf: "rows_for h1 cols vals = ?rc"
    by (simp add: h1 rows_for_event_store cok vok eok)
  from EventData_ok [OF r1 ob1 c v t1]
  have run2: "EventData h1 raw =
      (Inr (length h1), event_store h1 (event_dict (Suc (length h1)) items) ?rc)"
    by (simp add: r(1) rf)
  let ?h2 = "event_store h1 (event_dict (Suc (length h1)) items) ?rc"
  have v1: "event_value h1 s1 = (dict_del ''PkRows'' (event_dict 0 items), Some ?rc)"
    by (simp add: h1 s1 event_value_event_store)
  have v2: "event_value ?h2 (length h1) = (dict_del ''PkRows'' (event_dict 0 items), Some ?rc)"
    by (rule event_value_event_store)
  obtain t where "?h2 = h1 @ t" using event_store_is_append by blast
  with event_value_append [OF v1, of t] have v3: "event_value ?h2 s1 = event_value h1 s1"
    by (simp add: v1)
  from run2 v1 v2 v3 show ?thesis by simp
qed

lemma iteritems_Inr_D:
  "iteritems h raw = Inr items \<Longrightarrow> \<exists>r. raw = VRef r \<and> r < length h \<and> h ! r = ODict items"
  by (auto simp: iteritems_def obj_at_def split: val.splits option.splits obj.splits if_splits)

lemma list_at_Some_D:
  "list_at h v = Some xs \<Longrightarrow> \<exists>a. v = VRef a \<and> a < length h \<and> h ! a = OList xs"
  by (auto simp: list_at_def obj_at_def split: val.splits option.splits obj.splits if_splits)

lemma list_at_facts:
  assumes "list_at h v = Some xs"
  shows "val_ok (length h) v" and "entries h v = xs" and "iterable h v" and "truthy h v = (xs \<noteq> [])"
  using list_at_Some_D [OF assms]
  by (auto simp: entries_def iterable_def iter_def truthy_def obj_at_def)

text \<open>
  Claim C3, as amended. When the reply has both keys and the value of \<^verbatim>\<open>PkColNames\<close> is
  false (\<^verbatim>\<open>None\<close> or empty), the constructor succeeds and \<^verbatim>\<open>PkRows\<close> is the empty list,
  whatever the value of \<^verbatim>\<open>PkValues\<close> is. When the reply lacks the key \<^verbatim>\<open>PkColNames\<close>, or has
  it and lacks \<^verbatim>\<open>PkValues\<close>, the constructor raises \<^verbatim>\<open>KeyError\<close> for the missing key.
\<close>

theorem decode_false_colnames:
  "(getitem h raw ''PkColNames'' = Inr cols \<and> \<not> truthy h cols
      \<and> getitem h raw ''PkValues'' = Inr vals \<longrightarrow>
      (\<exists>self h'. EventData h raw = (Inr self, h') \<and> PkRows_of h' self = Some []))
   \<and> (iteritems h raw = Inr items \<and> ''PkColNames'' \<notin> dict_keys items \<longrightarrow>
        fst (EventData h raw) = Inl (PyExn KeyError [VStr ''PkColNames'']))
   \<and> (iteritems h raw = Inr items \<and> ''PkColNames'' \<in> dict_keys items
        \<and> ''PkValues'' \<notin> dict_keys items \<longrightarrow>
        fst (EventData h raw) = Inl (PyExn KeyError [VStr ''PkValues'']))"
proof (intro conjI impI)
  assume a: "getitem h raw ''PkColNames'' = Inr cols \<and> \<not> truthy h cols
      \<and> getitem h raw ''PkValues'' = Inr vals"
  from a getitem_Inr_D [of h raw "''PkColNames''" cols] obtain r items' where
    r: "raw = VRef r" "r < length h" "h ! r = ODict items'"
    and c: "dict_get items' ''PkColNames'' = Some cols" by blast
  from a r getitem_Inr_D [of h raw "''PkValues''" vals]
  have v: "dict_get items' ''PkValues'' = Some vals" by auto
  from a have "EventData h (VRef r) =
      (Inr (length h), event_store h (event_dict (Suc (length h)) items') (rows_for h cols vals))"
    by (intro EventData_ok [OF r(2,3) c v]) simp
  moreover from a have "rows_for h cols vals = []" by (simp add: rows_for_def)
  ultimately show "\<exists>self h'. EventData h raw = (Inr self, h') \<and> PkRows_of h' self = Some []"
    by (simp add: r(1) PkRows_of_event_store event_dict_PkRows)
next
  assume a: "iteritems h raw = Inr items \<and> ''PkColNames'' \<notin> dict_keys items"
  with iteritems_Inr_D [of h raw items] obtain r where
    "raw = VRef r" "r < length h" "h ! r = ODict items" by blast
  with a show "fst (EventData h raw) = Inl (PyExn KeyError [VStr ''PkColNames''])"
    by (simp add: EventData_def alloc_def init_fields_dict)
next
  assume a: "iteritems h raw = Inr items \<and> ''PkColNames'' \<in> dict_keys items
        \<and> ''PkValues'' \<notin> dict_keys items"
  with iteritems_Inr_D [of h raw items] obtain r where
    "raw = VRef r" "r < length h" "h ! r = ODict items" by blast
  with a show "fst (EventData h raw) = Inl (PyExn KeyError [VStr ''PkValues''])"
    by (simp add: EventData_def alloc_def init_fields_dict)
qed

text \<open>
  Claim C3 as stated fails: a reply without the key \<^verbatim>\<open>PkColNames\<close> is not decoded, and
  neither is one whose \<^verbatim>\<open>PkColNames\<close> is \<^verbatim>\<open>None\<close> and that has no \<^verbatim>\<open>PkValues\<close>.
\<close>

theorem decode_absent_colnames_counterexample:
  "fst (EventData reply_without_colnames (VRef 0)) = Inl (PyExn KeyError [VStr ''PkColNames''])
   \<and> fst (EventData reply_without_values (VRef 0)) = Inl (PyExn KeyError [VStr ''PkValues''])"
  by code_simp

lemma izip_nth:
  "izip cs vs = map (\<lambda>i. VTuple [cs ! i, vs ! i]) [0 ..< min (length cs) (length vs)]"
  by (rule nth_equalityI) (simp_all add: izip_zip)

lemma rows_of_lists:
  assumes "map (list_at h) ps = map Some vss"
  shows "list_all (val_ok (length h)) ps"
    and "list_all (iterable h) ps"
    and "map (\<lambda>pk. izip cs (entries h pk)) (filter (truthy h) ps) =
           map (izip cs) (filter (\<lambda>vs. vs \<noteq> []) vss)"
  using assms
proof (induction ps arbitrary: vss)
  case Nil
  { case 1 show ?case by simp
  next case 2 show ?case by simp
  next case 3 then show ?case by simp }
next
  case (Cons p ps)
  { case 1
    then obtain vs vss' where v: "vss = vs # vss'" "list_at h p = Some vs"
      "map (list_at h) ps = map Some vss'" by (cases vss) auto
    from Cons.IH(1) [OF v(3)] list_at_facts(1) [OF v(2)] show ?case by simp
  next
    case 2
    then obtain vs vss' where v: "vss = vs # vss'" "list_at h p = Some vs"
      "map (list_at h) ps = map Some vss'" by (cases vss) auto
    from Cons.IH(2) [OF v(3)] list_at_facts(3) [OF v(2)] show ?case by simp
  next
    case 3
    then obtain vs vss' where v: "vss = vs # vss'" "list_at h p = Some vs"
      "map (list_at h) ps = map Some vss'" by (cases vss) auto
    from Cons.IH(3) [OF v(3)] list_at_facts(2,4) [OF v(2)] show ?case by (simp add: v(1)) }
qed


lemma turn_ok_lists:
  "iterable h pc \<Longrightarrow> list_all (iterable h) ps \<Longrightarrow> list_all (turn_ok h pc) ps"
  by (simp add: list_all_iff turn_ok_def)

text \<open>
  Claim C4. With \<^verbatim>\<open>PkColNames = [c1, c2]\<close> and \<^verbatim>\<open>PkValues = [[v1, v2], [], [v3, v4]]\<close> the
  constructor succeeds and \<^verbatim>\<open>PkRows\<close> is \<^verbatim>\<open>[[(c1, v1), (c2, v2)], [(c1, v3), (c2, v4)]]\<close>:
  the empty entry gives no row. More generally, with any non-empty list of column names
  and any list of value lists, of whatever lengths, the constructor succeeds, every empty
  value list gives no row, and the row of a non-empty value list pairs column \<open>i\<close> with
  value \<open>i\<close> for the positions \<open>i\<close> below the shorter of the two lengths: the constructor
  truncates and does not raise when the lengths differ.
\<close>

theorem decode_two_columns:
  "(getitem h raw ''PkColNames'' = Inr pc \<and> list_at h pc = Some [c1, c2]
      \<and> getitem h raw ''PkValues'' = Inr pv \<and> list_at h pv = Some [p1, p2, p3]
      \<and> list_at h p1 = Some [v1, v2] \<and> list_at h p2 = Some []
      \<and> list_at h p3 = Some [v3, v4] \<longrightarrow>
      (\<exists>self h'. EventData h raw = (Inr self, h')
          \<and> PkRows_of h' self =
              Some [[VTuple [c1, v1], VTuple [c2, v2]], [VTuple [c1, v3], VTuple [c2, v4]]]))
   \<and> (getitem h raw ''PkColNames'' = Inr pc \<and> list_at h pc = Some cs \<and> cs \<noteq> []
      \<and> getitem h raw ''PkValues'' = Inr pv \<and> list_at h pv = Some ps
      \<and> map (list_at h) ps = map Some vss \<longrightarrow>
      (\<exists>self h'. EventData h raw = (Inr self, h')
          \<and> PkRows_of h' self =
              Some (map (\<lambda>vs. map (\<lambda>i. VTuple [cs ! i, vs ! i])
                                 [0 ..< min (length cs) (length vs)])
                     (filter (\<lambda>vs. vs \<noteq> []) vss))))
   \<and> (\<forall>cs vs. length (izip cs vs) = min (length cs) (length vs))"
proof (intro conjI impI allI)
  assume a: "getitem h raw ''PkColNames'' = Inr pc \<and> list_at h pc = Some cs \<and> cs \<noteq> []
      \<and> getitem h raw ''PkValues'' = Inr pv \<and> list_at h pv = Some ps
      \<and> map (list_at h) ps = map Some vss"
  then have g: "getitem h raw ''PkColNames'' = Inr pc" "getitem h raw ''PkValues'' = Inr pv"
    and lc: "list_at h pc = Some cs" and lv: "list_at h pv = Some ps"
    and ne: "cs \<noteq> []" and m: "map (list_at h) ps = map Some vss" by simp_all
  from getitem_Inr_D [OF g(1)] obtain r items where
    r: "raw = VRef r" "r < length h" "h ! r = ODict items"
    and c: "dict_get items ''PkColNames'' = Some pc" by blast
  from r getitem_Inr_D [OF g(2)] have v: "dict_get items ''PkValues'' = Some pv" by auto
  note pc = list_at_facts [OF lc] and pv = list_at_facts [OF lv]
  note ps = rows_of_lists [OF m]
  have "EventData h (VRef r) =
      (Inr (length h), event_store h (event_dict (Suc (length h)) items) (rows_for h pc pv))"
    by (intro EventData_ok [OF r(2,3) c v])
       (simp add: pc pv ps(1) turn_ok_lists [OF pc(3) ps(2)])
  moreover have "rows_for h pc pv =
      map (\<lambda>vs. map (\<lambda>i. VTuple [cs ! i, vs ! i]) [0 ..< min (length cs) (length vs)])
        (filter (\<lambda>vs. vs \<noteq> []) vss)"
    using ps(3) [of cs] by (simp add: rows_for_def pc pv ne izip_nth [abs_def])
  ultimately show "\<exists>self h'. EventData h raw = (Inr self, h')
          \<and> PkRows_of h' self =
              Some (map (\<lambda>vs. map (\<lambda>i. VTuple [cs ! i, vs ! i])
                                 [0 ..< min (length cs) (length vs)])
                     (filter (\<lambda>vs. vs \<noteq> []) vss))"
    by (simp add: r(1) PkRows_of_event_store event_dict_PkRows)
next
  assume a: "getitem h raw ''PkColNames'' = Inr pc \<and> list_at h pc = Some [c1, c2]
      \<and> getitem h raw ''PkValues'' = Inr pv \<and> list_at h pv = Some [p1, p2, p3]
      \<and> list_at h p1 = Some [v1, v2] \<and> list_at h p2 = Some []
      \<and> list_at h p3 = Some [v3, v4]"
  then have g: "getitem h raw ''PkColNames'' = Inr pc" "getitem h raw ''PkValues'' = Inr pv"
    and lc: "list_at h pc = Some [c1, c2]" and lv: "list_at h pv = Some [p1, p2, p3]"
    and l1: "list_at h p1 = Some [v1, v2]" and l2: "list_at h p2 = Some []"
    and l3: "list_at h p3 = Some [v3, v4]" by simp_all
  from getitem_Inr_D [OF g(1)] obtain r items where
    r: "raw = VRef r" "r < length h" "h ! r = ODict items"
    and c: "dict_get items ''PkColNames'' = Some pc" by blast
  from r getitem_Inr_D [OF g(2)] have v: "dict_get items ''PkValues'' = Some pv" by auto
  note pc = list_at_facts [OF lc] and pv = list_at_facts [OF lv]
    and p1 = list_at_facts [OF l1] and p2 = list_at_facts [OF l2]
    and p3 = list_at_facts [OF l3]
  have "EventData h (VRef r) =
      (Inr (length h), event_store h (event_dict (Suc (length h)) items) (rows_for h pc pv))"
    by (intro EventData_ok [OF r(2,3) c v])
       (simp add: pc pv p1 p2 p3 turn_ok_def)
  moreover have "rows_for h pc pv =
      [[VTuple [c1, v1], VTuple [c2, v2]], [VTuple [c1, v3], VTuple [c2, v4]]]"
    by (simp add: rows_for_def pc pv p1 p2 p3)
  ultimately show "\<exists>self h'. EventData h raw = (Inr self, h')
          \<and> PkRows_of h' self =
              Some [[VTuple [c1, v1], VTuple [c2, v2]], [VTuple [c1, v3], VTuple [c2, v4]]]"
    by (simp add: r(1) PkRows_of_event_store event_dict_PkRows)
next
  fix cs vs :: "val list"
  show "length (izip cs vs) = min (length cs) (length vs)" by (rule length_izip)
qed

text \<open>
  Claim C6. After a successful call on a closed store, \<^verbatim>\<open>PkRows\<close> has at most as many
  rows as \<^verbatim>\<open>PkValues\<close> has entries. The rows are, in order, those of the entries that are
  true, each zipped with the column names; an entry that is \<^verbatim>\<open>None\<close> or empty gives no
  row.
\<close>

theorem rows_bounded:
  assumes "closed h" and "EventData h raw = (Inr self, h')"
  shows "\<exists>cols vals rows.
           getitem h raw ''PkColNames'' = Inr cols \<and> getitem h raw ''PkValues'' = Inr vals
           \<and> PkRows_of h' self = Some rows
           \<and> length rows \<le> length (entries h vals)
           \<and> rows = (if truthy h cols
                      then map (\<lambda>pkList. izip (entries h cols) (entries h pkList))
                             (filter (truthy h) (entries h vals))
                      else [])"
proof -
  from EventData_Inr_closed [OF assms] obtain r items cols vals where
    r: "raw = VRef r" "r < length h" "h ! r = ODict items"
    and c: "dict_get items ''PkColNames'' = Some cols"
    and v: "dict_get items ''PkValues'' = Some vals"
    and s: "self = length h"
    and h': "h' = event_store h (event_dict (Suc (length h)) items) (rows_for h cols vals)"
    by blast
  have "getitem h raw ''PkColNames'' = Inr cols" "getitem h raw ''PkValues'' = Inr vals"
    by (simp_all add: r(1) getitem_dict [OF r(2,3)] c v)
  moreover have "PkRows_of h' self = Some (rows_for h cols vals)"
    by (simp add: h' s PkRows_of_event_store event_dict_PkRows)
  moreover have "length (rows_for h cols vals) \<le> length (entries h vals)"
    by (rule length_rows_for)
  ultimately show ?thesis unfolding rows_for_def by blast
qed

text \<open>
  Claim C10. Whatever \<^verbatim>\<open>stream_start\<close> or \<^verbatim>\<open>stream_next\<close> returns other than \<^verbatim>\<open>None\<close> is a
  dictionary that has the key \<^verbatim>\<open>PkRows\<close> and has neither \<^verbatim>\<open>PkColNames\<close> nor \<^verbatim>\<open>PkValues\<close>.
\<close>

theorem returned_keys:
  assumes "stream_next sub T w = (Inr (Some d), w') \<or> stream_start sub T p w = (Inr (Some d), w')"
  shows "\<exists>a kvs. d = VRef a \<and> obj_at (store w') a = Some (ODict kvs)
           \<and> ''PkRows'' \<in> dict_keys kvs \<and> ''PkColNames'' \<notin> dict_keys kvs
           \<and> ''PkValues'' \<notin> dict_keys kvs"
proof -
  from assms obtain b raw a where "EventData b raw = (Inr a, store w')" and d: "d = VRef a"
    by (auto simp: stream_next_def stream_start_def alloc_def next_except_def start_except_def
          split: prod.splits sum.splits option.splits if_splits)
  from EventData_Inr_store [OF this(1)] obtain items rc where
    "a = length b" "store w' = event_store b (event_dict (Suc (length b)) items) rc"
    by blast
  then have "obj_at (store w') a = Some (ODict (event_dict (Suc (length b)) items))"
    by (simp add: obj_at_event_store_self)
  with d show ?thesis by (simp add: dict_keys_event_dict)
qed

subsection \<open>The claims at concrete replies\<close>

theorem decode_false_colnames_witness:
  "getitem reply_with_nulls (VRef 0) ''PkColNames'' = Inr VNone
   \<and> \<not> truthy reply_with_nulls VNone
   \<and> (\<exists>self h'. EventData reply_with_nulls (VRef 0) = (Inr self, h') \<and> PkRows_of h' self = Some [])
   \<and> fst (EventData reply_without_colnames (VRef 0)) = Inl (PyExn KeyError [VStr ''PkColNames''])
   \<and> fst (EventData reply_without_values (VRef 0)) = Inl (PyExn KeyError [VStr ''PkValues''])"
proof -
  have a: "getitem reply_with_nulls (VRef 0) ''PkColNames'' = Inr VNone"
    "\<not> truthy reply_with_nulls VNone"
    "getitem reply_with_nulls (VRef 0) ''PkValues'' = Inr VNone"
    by (simp_all add: getitem_def obj_at_def reply_with_nulls_def truthy_def)
  have b: "iteritems reply_without_colnames (VRef 0) =
             Inr [(''Category'', VStr ''DDL''), (''PkValues'', VNone)]"
    "''PkColNames'' \<notin> dict_keys [(''Category'', VStr ''DDL''), (''PkValues'', VNone)]"
    by (simp_all add: iteritems_def obj_at_def reply_without_colnames_def dict_keys_def)
  have c: "iteritems reply_without_values (VRef 0) =
             Inr [(''Category'', VStr ''DDL''), (''PkColNames'', VNone)]"
    "''PkColNames'' \<in> dict_keys [(''Category'', VStr ''DDL''), (''PkColNames'', VNone)]"
    "''PkValues'' \<notin> dict_keys [(''Category'', VStr ''DDL''), (''PkColNames'', VNone)]"
    by (simp_all add: iteritems_def obj_at_def reply_without_values_def dict_keys_def)
  from decode_false_colnames [of reply_with_nulls "VRef 0" VNone VNone] a
    decode_false_colnames [of reply_without_colnames "VRef 0" _ _
      "[(''Category'', VStr ''DDL''), (''PkValues'', VNone)]"] b
    decode_false_colnames [of reply_without_values "VRef 0" _ _
      "[(''Category'', VStr ''DDL''), (''PkColNames'', VNone)]"] c
  show ?thesis by blast
qed

theorem decode_two_columns_witness:
  "(\<exists>self h'. EventData row_reply (VRef 0) = (Inr self, h')
      \<and> PkRows_of h' self =
          Some [[VTuple [VStr ''id'', VInt 42], VTuple [VStr ''shard'', VInt 1]],
                [VTuple [VStr ''id'', VInt 43], VTuple [VStr ''shard'', VInt 2]]])
   \<and> (\<exists>self h'. EventData ragged_reply (VRef 0) = (Inr self, h')
      \<and> PkRows_of h' self =
          Some [[VTuple [VStr ''id'', VInt 42]],
                [VTuple [VStr ''id'', VInt 43], VTuple [VStr ''shard'', VInt 2]]])"
proof -
  have a: "getitem row_reply (VRef 0) ''PkColNames'' = Inr (VRef 1)
    \<and> list_at row_reply (VRef 1) = Some [VStr ''id'', VStr ''shard'']
    \<and> getitem row_reply (VRef 0) ''PkValues'' = Inr (VRef 2)
    \<and> list_at row_reply (VRef 2) = Some [VRef 3, VRef 4, VRef 5]
    \<and> list_at row_reply (VRef 3) = Some [VInt 42, VInt 1]
    \<and> list_at row_reply (VRef 4) = Some []
    \<and> list_at row_reply (VRef 5) = Some [VInt 43, VInt 2]"
    by (simp add: getitem_def list_at_def obj_at_def row_reply_def)
  have b: "getitem ragged_reply (VRef 0) ''PkColNames'' = Inr (VRef 1)
    \<and> list_at ragged_reply (VRef 1) = Some [VStr ''id'', VStr ''shard'']
    \<and> [VStr ''id'', VStr ''shard''] \<noteq> []
    \<and> getitem ragged_reply (VRef 0) ''PkValues'' = Inr (VRef 2)
    \<and> list_at ragged_reply (VRef 2) = Some [VRef 3, VRef 4]
    \<and> map (list_at ragged_reply) [VRef 3, VRef 4] =
        map Some [[VInt 42], [VInt 43, VInt 2, VInt 7]]"
    by (simp add: getitem_def list_at_def obj_at_def ragged_reply_def)
  have e: "map (\<lambda>vs. map (\<lambda>i. VTuple [[VStr ''id'', VStr ''shard''] ! i, vs ! i])
                       [0 ..< min (length [VStr ''id'', VStr ''shard'']) (length vs)])
             (filter (\<lambda>vs. vs \<noteq> []) [[VInt 42], [VInt 43, VInt 2, VInt 7]]) =
           [[VTuple [VStr ''id'', VInt 42]],
            [VTuple [VStr ''id'', VInt 43], VTuple [VStr ''shard'', VInt 2]]]"
    by (simp add: upt_rec)
  from decode_two_columns [of row_reply "VRef 0" "VRef 1" "VStr ''id''" "VStr ''shard''"
      "VRef 2" "VRef 3" "VRef 4" "VRef 5" "VInt 42" "VInt 1" "VInt 43" "VInt 2"] a
  have one: "\<exists>self h'. EventData row_reply (VRef 0) = (Inr self, h')
      \<and> PkRows_of h' self =
          Some [[VTuple [VStr ''id'', VInt 42], VTuple [VStr ''shard'', VInt 1]],
                [VTuple [VStr ''id'', VInt 43], VTuple [VStr ''shard'', VInt 2]]]"
    by blast
  from decode_two_columns [of ragged_reply "VRef 0" "VRef 1" _ _ "VRef 2" _ _ _ _ _ _ _
      "[VStr ''id'', VStr ''shard'']" "[VRef 3, VRef 4]"
      "[[VInt 42], [VInt 43, VInt 2, VInt 7]]"] b
  have two: "\<exists>self h'. EventData ragged_reply (VRef 0) = (Inr self, h')
      \<and> PkRows_of h' self =
          Some [[VTuple [VStr ''id'', VInt 42]],
                [VTuple [VStr ''id'', VInt 43], VTuple [VStr ''shard'', VInt 2]]]"
    unfolding e by blast
  from one two show ?thesis by simp
qed

lemma closed_row_reply: "closed row_reply"
  by (simp add: closed_def row_reply_def)

lemma decode_row_reply: "fst (EventData row_reply (VRef 0)) = Inr 6"
  by code_simp

theorem rows_bounded_witness:
  "closed row_reply \<and> fst (EventData row_reply (VRef 0)) = Inr 6
   \<and> (\<exists>rows. PkRows_of (snd (EventData row_reply (VRef 0))) 6 = Some rows \<and> length rows \<le> 3)"
proof -
  have e: "EventData row_reply (VRef 0) = (Inr 6, snd (EventData row_reply (VRef 0)))"
    using decode_row_reply by (metis prod.collapse)
  have v: "getitem row_reply (VRef 0) ''PkValues'' = Inr (VRef 2)"
    by (simp add: getitem_def obj_at_def row_reply_def)
  have n: "length (entries row_reply (VRef 2)) = 3"
    by (simp add: entries_def iter_def obj_at_def row_reply_def)
  from rows_bounded [OF closed_row_reply e] v n closed_row_reply decode_row_reply
  show ?thesis by auto
qed

theorem decode_twice_equal_witness:
  "closed row_reply \<and> fst (EventData row_reply (VRef 0)) = Inr 6
   \<and> (\<exists>s2 h2. EventData (snd (EventData row_reply (VRef 0))) (VRef 0) = (Inr s2, h2)
         \<and> event_value h2 s2 = event_value (snd (EventData row_reply (VRef 0))) 6
         \<and> event_value h2 6 = event_value (snd (EventData row_reply (VRef 0))) 6)"
proof -
  have e: "EventData row_reply (VRef 0) = (Inr 6, snd (EventData row_reply (VRef 0)))"
    using decode_row_reply by (metis prod.collapse)
  from decode_twice_equal [OF closed_row_reply e] closed_row_reply decode_row_reply
  show ?thesis by blast
qed

lemma next_row_reply:
  "fst (stream_next app_below_rpc scripted (script_world row_reply [Inr (Some (VRef 0))])) =
     Inr (Some (VRef 6))"
  by code_simp

theorem returned_keys_witness:
  "fst (stream_next app_below_rpc scripted (script_world row_reply [Inr (Some (VRef 0))])) =
     Inr (Some (VRef 6))
   \<and> (\<exists>kvs. obj_at (store (snd (stream_next app_below_rpc scripted
                (script_world row_reply [Inr (Some (VRef 0))])))) 6 = Some (ODict kvs)
         \<and> ''PkRows'' \<in> dict_keys kvs \<and> ''PkColNames'' \<notin> dict_keys kvs
         \<and> ''PkValues'' \<notin> dict_keys kvs)"
proof -
  let ?r = "stream_next app_below_rpc scripted (script_world row_reply [Inr (Some (VRef 0))])"
  have e: "?r = (Inr (Some (VRef 6)), snd ?r)"
    using next_row_reply by (metis prod.collapse)
  from returned_keys [of app_below_rpc scripted "script_world row_reply [Inr (Some (VRef 0))]"
      "VRef 6" "snd ?r"] e next_row_reply
  show ?thesis by auto
qed

end
